theory Spec2Isabelle
  imports Complex_Main
begin

section \<open>Python values used by the pipeline\<close>

text \<open>
  A Python \<^verbatim>\<open>str\<close> is a sequence of Unicode code points; a code point is a natural
  number. Confidences and image metrics are Python floats. A float is modelled by
  the real number it stands for. The corrector, whose confidences the specification
  gives to the last digit, computes in binary64: its literals and its products are
  rounded (\<open>d64\<close>, \<open>fmul\<close> below). The means of the recognition model and the
  metrics of the images are in exact arithmetic.
  A raised exception is a value of type \<open>exn\<close>; a function that may raise returns
  \<open>exn + 'a\<close>, with \<open>Inl\<close> for the exception.
\<close>

type_synonym codepoint = nat
type_synonym pystr = "codepoint list"

datatype exn = Exn string

definition s2p :: "string \<Rightarrow> pystr" where
  "s2p s = map of_char s"

abbreviation NL :: codepoint where "NL \<equiv> 10"
abbreviation SP :: codepoint where "SP \<equiv> 32"
abbreviation BULLET :: codepoint where "BULLET \<equiv> 8226"
abbreviation HYPHEN :: codepoint where "HYPHEN \<equiv> 45"

text \<open>
  \<^verbatim>\<open>str.isspace\<close> on one code point, which is also the class \<^verbatim>\<open>\s\<close> of the module
  \<^verbatim>\<open>re\<close> on \<^verbatim>\<open>str\<close> patterns: the white space of the Unicode database as CPython has it.
\<close>

definition isspace :: "codepoint \<Rightarrow> bool" where
  "isspace c \<longleftrightarrow>
     (9 \<le> c \<and> c \<le> 13) \<or> (28 \<le> c \<and> c \<le> 32) \<or> c = 133 \<or> c = 160 \<or> c = 5760 \<or>
     (8192 \<le> c \<and> c \<le> 8202) \<or> c = 8232 \<or> c = 8233 \<or> c = 8239 \<or> c = 8287 \<or> c = 12288"

text \<open>
  The rest of the Unicode database is not part of the repository and far too large
  to write out: decimal digits (\<^verbatim>\<open>\d\<close>), alphanumerics (\<^verbatim>\<open>\w\<close> is an alphanumeric
  or the underscore), \<^verbatim>\<open>str.lower\<close> and \<^verbatim>\<open>str.capitalize\<close>. They are parameters of the
  model. \<open>ascii_db\<close> is the restriction to ASCII, used to run the model on ASCII texts.
\<close>

record unicode_db =
  uni_isdecimal :: "codepoint \<Rightarrow> bool"
  uni_isalnum :: "codepoint \<Rightarrow> bool"
  str_lower :: "pystr \<Rightarrow> pystr"
  str_capitalize :: "pystr \<Rightarrow> pystr"

definition ascii_digit :: "codepoint \<Rightarrow> bool" where
  "ascii_digit c \<longleftrightarrow> 48 \<le> c \<and> c \<le> 57"

definition ascii_upper :: "codepoint \<Rightarrow> bool" where
  "ascii_upper c \<longleftrightarrow> 65 \<le> c \<and> c \<le> 90"

definition ascii_lower :: "codepoint \<Rightarrow> bool" where
  "ascii_lower c \<longleftrightarrow> 97 \<le> c \<and> c \<le> 122"

definition ascii_alpha :: "codepoint \<Rightarrow> bool" where
  "ascii_alpha c \<longleftrightarrow> ascii_upper c \<or> ascii_lower c"

definition ascii_to_lower :: "codepoint \<Rightarrow> codepoint" where
  "ascii_to_lower c = (if ascii_upper c then c + 32 else c)"

definition ascii_to_upper :: "codepoint \<Rightarrow> codepoint" where
  "ascii_to_upper c = (if ascii_lower c then c - 32 else c)"

definition ascii_capitalize :: "pystr \<Rightarrow> pystr" where
  "ascii_capitalize s = (case s of [] \<Rightarrow> [] | c # cs \<Rightarrow> ascii_to_upper c # map ascii_to_lower cs)"

definition ascii_db :: unicode_db where
  "ascii_db = \<lparr> uni_isdecimal = ascii_digit,
                uni_isalnum = (\<lambda>c. ascii_digit c \<or> ascii_alpha c),
                str_lower = map ascii_to_lower,
                str_capitalize = ascii_capitalize \<rparr>"

definition re_word :: "unicode_db \<Rightarrow> codepoint \<Rightarrow> bool" where
  "re_word U c \<longleftrightarrow> uni_isalnum U c \<or> c = 95"

subsection \<open>String methods\<close>

definition py_strip :: "pystr \<Rightarrow> pystr" where
  "py_strip s = rev (dropWhile isspace (rev (dropWhile isspace s)))"

text \<open>\<^verbatim>\<open>sep.join(xs)\<close>\<close>

fun py_join :: "pystr \<Rightarrow> pystr list \<Rightarrow> pystr" where
  "py_join sep [] = []"
| "py_join sep [x] = x"
| "py_join sep (x # y # ys) = x @ sep @ py_join sep (y # ys)"

text \<open>\<^verbatim>\<open>s.split()\<close>: the maximal runs of characters that are not white space.\<close>

function py_split :: "pystr \<Rightarrow> pystr list" where
  "py_split s =
     (case dropWhile isspace s of
        [] \<Rightarrow> []
      | c # cs \<Rightarrow> (c # takeWhile (\<lambda>x. \<not> isspace x) cs) # py_split (dropWhile (\<lambda>x. \<not> isspace x) cs))"
  by pat_completeness auto
termination
proof (relation "measure length")
  show "wf (measure length)" by simp
next
  fix s :: pystr and c cs
  assume a: "dropWhile isspace s = c # cs"
  have "length (dropWhile (\<lambda>x. \<not> isspace x) cs) \<le> length cs"
    by (rule length_dropWhile_le)
  moreover have "length (c # cs) \<le> length s"
    using length_dropWhile_le [of isspace s] a by simp
  ultimately show "(dropWhile (\<lambda>x. \<not> isspace x) cs, s) \<in> measure length"
    by simp
qed

text \<open>
  \<^verbatim>\<open>s.replace(old, new)\<close>: the occurrences of \<open>old\<close> are found from left to right and do
  not overlap; an empty \<open>old\<close> matches before every character and at the end.
\<close>

function replace_from :: "pystr \<Rightarrow> pystr \<Rightarrow> pystr \<Rightarrow> pystr" where
  "replace_from old new [] = []"
| "replace_from old new (c # cs) =
     (if old \<noteq> [] \<and> take (length old) (c # cs) = old
      then new @ replace_from old new (drop (length old) (c # cs))
      else c # replace_from old new cs)"
  by pat_completeness auto
termination
  by (relation "measure (\<lambda>(old, new, s). length s)") auto

definition py_replace :: "pystr \<Rightarrow> pystr \<Rightarrow> pystr \<Rightarrow> pystr" where
  "py_replace old new s =
     (if old = [] then new @ concat (map (\<lambda>c. c # new) s) else replace_from old new s)"

section \<open>The regular expressions of the program\<close>

text \<open>
  The patterns that the program hands to \<^verbatim>\<open>re.sub\<close> are sequences of: one character of
  a class, a greedy repetition \<^verbatim>\<open>{m,}\<close> of a class (\<^verbatim>\<open>*\<close> is \<^verbatim>\<open>{0,}\<close>, \<^verbatim>\<open>+\<close> is \<^verbatim>\<open>{1,}\<close>),
  either of them possibly inside a capturing group, and one-character look-behind
  and look-ahead assertions, positive or negative.
\<close>

datatype item = One "codepoint \<Rightarrow> bool" | AtLeast nat "codepoint \<Rightarrow> bool"

datatype re =
    Plain item
  | Cap item
  | Behind bool "codepoint \<Rightarrow> bool"
  | Ahead bool "codepoint \<Rightarrow> bool"

text \<open>
  \<open>first_down m f k\<close> is the backtracking of a greedy repetition: the repetition first
  takes \<open>k\<close> characters, then \<open>k - 1\<close>, ... down to \<open>m\<close>, and \<open>f\<close> matches the rest of the
  pattern; the first success is the match.
\<close>

fun first_down :: "nat \<Rightarrow> (nat \<Rightarrow> 'a option) \<Rightarrow> nat \<Rightarrow> 'a option" where
  "first_down m f 0 = (if m = 0 then f 0 else None)"
| "first_down m f (Suc k) =
     (if Suc k < m then None
      else (case f (Suc k) of Some r \<Rightarrow> Some r | None \<Rightarrow> first_down m f k))"

text \<open>
  \<open>match_here p pre rest\<close> matches the pattern \<open>p\<close> at one position of the subject:
  \<open>pre\<close> is the text before the position, reversed, \<open>rest\<close> the text from the position
  on. The result is the length of the match and the captured groups in order.
\<close>

fun match_here :: "re list \<Rightarrow> pystr \<Rightarrow> pystr \<Rightarrow> (nat \<times> pystr list) option" where
  "match_here [] pre rest = Some (0, [])"
| "match_here (Behind pos cls # ps) pre rest =
     (if (case pre of [] \<Rightarrow> False | c # _ \<Rightarrow> cls c) = pos then match_here ps pre rest else None)"
| "match_here (Ahead pos cls # ps) pre rest =
     (if (case rest of [] \<Rightarrow> False | c # _ \<Rightarrow> cls c) = pos then match_here ps pre rest else None)"
| "match_here (Plain (One cls) # ps) pre rest =
     (case rest of
        [] \<Rightarrow> None
      | c # cs \<Rightarrow>
          if cls c
          then (case match_here ps (c # pre) cs of
                  None \<Rightarrow> None
                | Some (n, gs) \<Rightarrow> Some (Suc n, gs))
          else None)"
| "match_here (Cap (One cls) # ps) pre rest =
     (case rest of
        [] \<Rightarrow> None
      | c # cs \<Rightarrow>
          if cls c
          then (case match_here ps (c # pre) cs of
                  None \<Rightarrow> None
                | Some (n, gs) \<Rightarrow> Some (Suc n, [c] # gs))
          else None)"
| "match_here (Plain (AtLeast m cls) # ps) pre rest =
     first_down m
       (\<lambda>k. case match_here ps (rev (take k rest) @ pre) (drop k rest) of
               None \<Rightarrow> None
             | Some (n, gs) \<Rightarrow> Some (k + n, gs))
       (length (takeWhile cls rest))"
| "match_here (Cap (AtLeast m cls) # ps) pre rest =
     first_down m
       (\<lambda>k. case match_here ps (rev (take k rest) @ pre) (drop k rest) of
               None \<Rightarrow> None
             | Some (n, gs) \<Rightarrow> Some (k + n, take k rest # gs))
       (length (takeWhile cls rest))"

text \<open>The replacement template: literal text and group references \<^verbatim>\<open>\1\<close>, \<^verbatim>\<open>\2\<close>.\<close>

datatype repl_item = Lit pystr | Group nat

fun expand :: "repl_item list \<Rightarrow> pystr list \<Rightarrow> pystr" where
  "expand [] gs = []"
| "expand (Lit s # r) gs = s @ expand r gs"
| "expand (Group k # r) gs =
     (if 1 \<le> k \<and> k \<le> length gs then gs ! (k - 1) else []) @ expand r gs"

text \<open>
  \<^verbatim>\<open>re.sub(pattern, repl, text)\<close>: the subject is scanned from left to right; at the
  leftmost position where the pattern matches, the match is replaced and the scan
  goes on behind it; a character at which nothing matches is copied. An empty match
  is replaced too, and the character behind it is copied. (In the patterns of this
  program only the bullet pattern can match the empty string, and there the empty
  match is the last alternative of the backtracking.)
\<close>

function re_sub_from :: "re list \<Rightarrow> repl_item list \<Rightarrow> pystr \<Rightarrow> pystr \<Rightarrow> pystr" where
  "re_sub_from p tpl pre [] =
     (case match_here p pre [] of None \<Rightarrow> [] | Some (n, gs) \<Rightarrow> expand tpl gs)"
| "re_sub_from p tpl pre (c # cs) =
     (case match_here p pre (c # cs) of
        None \<Rightarrow> c # re_sub_from p tpl (c # pre) cs
      | Some (n, gs) \<Rightarrow>
          if n = 0 then expand tpl gs @ c # re_sub_from p tpl (c # pre) cs
          else expand tpl gs @
               re_sub_from p tpl (rev (take n (c # cs)) @ pre) (drop n (c # cs)))"
  by pat_completeness auto
termination
  by (relation "measure (\<lambda>(p, tpl, pre, rest). length rest)") auto

definition re_sub :: "re list \<Rightarrow> repl_item list \<Rightarrow> pystr \<Rightarrow> pystr" where
  "re_sub p tpl text = re_sub_from p tpl [] text"

section \<open>Binary64 arithmetic\<close>

text \<open>
  \<open>round64 x\<close> is the binary64 number nearest to \<open>x\<close>, ties to the even significand.
  \<open>normalise64\<close> scales the magnitude into \<open>[2^52, 2^53)\<close> and counts the exponent
  of the unit in the last place, which does not go below \<open>-1074\<close> (gradual underflow);
  the first argument bounds the number of steps and \<open>2200\<close> is more than the format
  needs. Overflow to infinity and NaN are not modelled: a product would have to
  exceed \<open>2^1024\<close>.
\<close>

definition round_half_even :: "real \<Rightarrow> int" where
  "round_half_even y =
     (let f = \<lfloor>y\<rfloor>; r = y - of_int f
      in if r < 1 / 2 then f else if 1 / 2 < r then f + 1 else if even f then f else f + 1)"

definition pow2 :: "int \<Rightarrow> real" where
  "pow2 e = (if 0 \<le> e then 2 ^ nat e else 1 / 2 ^ nat (- e))"

function normalise64 :: "nat \<Rightarrow> real \<Rightarrow> int \<Rightarrow> real \<times> int" where
  "normalise64 n y e =
     (if n = 0 then (y, e)
      else if y < 2 ^ 52 \<and> - 1074 < e then normalise64 (n - 1) (2 * y) (e - 1)
      else if 2 ^ 53 \<le> y then normalise64 (n - 1) (y / 2) (e + 1)
      else (y, e))"
  by pat_completeness auto
termination
  by (relation "measure (\<lambda>(n, y, e). n)") auto

declare normalise64.simps [simp del]

definition round64 :: "real \<Rightarrow> real" where
  "round64 x =
     (if x = 0 then 0
      else (case normalise64 2200 \<bar>x\<bar> 0 of
              (y, e) \<Rightarrow> sgn x * of_int (round_half_even y) * pow2 e))"

text \<open>A float literal of the source, and the product of two floats.\<close>

definition d64 :: "real \<Rightarrow> real" where
  "d64 x = round64 x"

definition fmul :: "real \<Rightarrow> real \<Rightarrow> real" where
  "fmul x y = round64 (x * y)"

section \<open>The corrector: \<^verbatim>\<open>MLEnhancementModel\<close>\<close>

text \<open>
  The object has the flag \<open>initialized\<close> and the method \<^verbatim>\<open>_apply_ml_corrections\<close>, the
  inference of the loaded model, which \<^verbatim>\<open>enhance_text\<close> calls inside \<^verbatim>\<open>try\<close>. The body
  in the repository is a placeholder that returns its argument (\<open>placeholder_ml_corrections\<close>);
  the field \<open>ml_corrections\<close> stands for any inference, which may raise.
\<close>

record ml_model =
  initialized :: bool
  ml_corrections :: "pystr \<Rightarrow> exn + pystr"

definition placeholder_ml_corrections :: "pystr \<Rightarrow> exn + pystr" where
  "placeholder_ml_corrections text = Inr text"

text \<open>
  \<^verbatim>\<open>self.common_errors\<close>, in the insertion order of the dictionary:
  \<^verbatim>\<open>([0-9])([A-Za-z])\<close>, \<^verbatim>\<open>([A-Za-z])([0-9])\<close>, \<^verbatim>\<open>l([^a-z])\<close>, \<^verbatim>\<open>(\w)\.(\w)\<close>, \<^verbatim>\<open>\s{2,}\<close>.
\<close>

definition common_errors :: "unicode_db \<Rightarrow> (re list \<times> repl_item list) list" where
  "common_errors U =
     [([Cap (One ascii_digit), Cap (One ascii_alpha)], [Group 1, Lit [SP], Group 2]),
      ([Cap (One ascii_alpha), Cap (One ascii_digit)], [Group 1, Lit [SP], Group 2]),
      ([Plain (One (\<lambda>c. c = 108)), Cap (One (\<lambda>c. \<not> ascii_lower c))], [Lit [73], Group 1]),
      ([Cap (One (re_word U)), Plain (One (\<lambda>c. c = 46)), Cap (One (re_word U))],
         [Group 1, Lit [46, SP], Group 2]),
      ([Plain (AtLeast 2 isspace)], [Lit [SP]])]"

text \<open>
  \<^verbatim>\<open>char_replacements\<close>, in insertion order. The last key is the two code points
  U+00C2 U+00B4 that the source file holds.
\<close>

definition char_replacements :: "(pystr \<times> pystr) list" where
  "char_replacements =
     [([48], [79]), ([79], [79]), ([108], [108]), ([73], [73]), ([59], [59]),
      ([96], [39]), ([194, 180], [39])]"

definition apply_rule_based_corrections :: "unicode_db \<Rightarrow> pystr \<Rightarrow> pystr" where
  "apply_rule_based_corrections U text =
     (let enhanced_text = foldl (\<lambda>t (pattern, replacement). re_sub pattern replacement t)
                            text (common_errors U)
      in foldl (\<lambda>t (old, new). if old \<noteq> new then py_replace old new t else t)
           enhanced_text char_replacements)"

definition enhance_text :: "unicode_db \<Rightarrow> ml_model \<Rightarrow> pystr \<Rightarrow> real \<Rightarrow> pystr \<times> real" where
  "enhance_text U self text confidence =
     (if text = [] \<or> py_strip text = [] then (text, confidence)
      else
        let enhanced_text = apply_rule_based_corrections U text in
        if initialized self \<and> confidence < d64 0.85
        then (case ml_corrections self enhanced_text of
                Inr t \<Rightarrow> (t, min 1.0 (fmul confidence (d64 1.15)))
              | Inl e \<Rightarrow> (enhanced_text, confidence))
        else (enhanced_text, min 1.0 (fmul confidence (d64 1.05))))"

section \<open>The normalizer: \<^verbatim>\<open>NLPProcessor\<close>\<close>

text \<open>
  \<open>nlp\<close> is the spaCy pipeline when one was loaded: it maps a text to its entities
  (text and label of each), or raises.
\<close>

record nlp_processor =
  enable_spell_check :: bool
  enable_ner :: bool
  nlp :: "(pystr \<Rightarrow> exn + (pystr \<times> string) list) option"

text \<open>
  \<^verbatim>\<open>self.patterns\<close>: \<^verbatim>\<open>(\d+)\.(\d+)\<close>, \<^verbatim>\<open>(\w+)\s+,\s+(\w+)\<close>, \<^verbatim>\<open>(\w+)\s+\.\s+(\w+)\<close>,
  \<^verbatim>\<open>\s{2,}\<close>, \<^verbatim>\<open>([a-z])([A-Z])\<close>.
\<close>

definition decimal_pattern :: "unicode_db \<Rightarrow> re list" where
  "decimal_pattern U =
     [Cap (AtLeast 1 (uni_isdecimal U)), Plain (One (\<lambda>c. c = 46)), Cap (AtLeast 1 (uni_isdecimal U))]"

definition decimal_replacement :: "repl_item list" where
  "decimal_replacement = [Group 1, Lit [46], Group 2]"

definition patterns :: "unicode_db \<Rightarrow> (re list \<times> repl_item list) list" where
  "patterns U =
     [(decimal_pattern U, decimal_replacement),
      ([Cap (AtLeast 1 (re_word U)), Plain (AtLeast 1 isspace), Plain (One (\<lambda>c. c = 44)),
        Plain (AtLeast 1 isspace), Cap (AtLeast 1 (re_word U))],
         [Group 1, Lit [44, SP], Group 2]),
      ([Cap (AtLeast 1 (re_word U)), Plain (AtLeast 1 isspace), Plain (One (\<lambda>c. c = 46)),
        Plain (AtLeast 1 isspace), Cap (AtLeast 1 (re_word U))],
         [Group 1, Lit [46, SP], Group 2]),
      ([Plain (AtLeast 2 isspace)], [Lit [SP]]),
      ([Cap (One ascii_lower), Cap (One ascii_upper)], [Group 1, Lit [SP], Group 2])]"

definition fix_patterns :: "unicode_db \<Rightarrow> pystr \<Rightarrow> pystr" where
  "fix_patterns U text =
     foldl (\<lambda>processed (pattern, replacement). re_sub pattern replacement processed)
       text (patterns U)"

definition ensure_proper_case :: "unicode_db \<Rightarrow> pystr \<Rightarrow> pystr" where
  "ensure_proper_case U text = py_join [SP] (map (str_capitalize U) (py_split text))"

definition apply_spacy_processing ::
  "unicode_db \<Rightarrow> nlp_processor \<Rightarrow> (pystr \<Rightarrow> exn + (pystr \<times> string) list) \<Rightarrow> pystr \<Rightarrow> exn + pystr"
where
  "apply_spacy_processing U self pipeline text =
     (case pipeline text of
        Inl e \<Rightarrow> Inl e
      | Inr ents \<Rightarrow>
          Inr (if enable_ner self
               then foldl (\<lambda>t (ent_text, label).
                             if label \<in> set [''PERSON'', ''ORG'', ''GPE'', ''LOC'']
                             then py_replace ent_text (ensure_proper_case U ent_text) t
                             else t)
                      text ents
               else text))"

text \<open>
  \<^verbatim>\<open>_fix_paragraphs\<close>: \<^verbatim>\<open>(?<!\n)\n(?!\n)\<close> becomes a space, \<^verbatim>\<open>\n{3,}\<close> becomes two
  newlines, \<^verbatim>\<open>(?<=\n)[\s\<bullet>-]*(?=\<bullet>)\<close> becomes the empty string; the bullet is U+2022.
\<close>

definition is_newline :: "codepoint \<Rightarrow> bool" where
  "is_newline c \<longleftrightarrow> c = NL"

definition is_bullet :: "codepoint \<Rightarrow> bool" where
  "is_bullet c \<longleftrightarrow> c = BULLET"

definition bullet_lead :: "codepoint \<Rightarrow> bool" where
  "bullet_lead c \<longleftrightarrow> isspace c \<or> c = BULLET \<or> c = HYPHEN"

definition single_newline_pattern :: "re list" where
  "single_newline_pattern = [Behind False is_newline, Plain (One is_newline), Ahead False is_newline]"

definition newline_run_pattern :: "re list" where
  "newline_run_pattern = [Plain (AtLeast 3 is_newline)]"

definition bullet_pattern :: "re list" where
  "bullet_pattern = [Behind True is_newline, Plain (AtLeast 0 bullet_lead), Ahead True is_bullet]"

definition fix_paragraphs :: "pystr \<Rightarrow> pystr" where
  "fix_paragraphs text =
     (let text = re_sub single_newline_pattern [Lit [SP]] text;
          text = re_sub newline_run_pattern [Lit [NL, NL]] text
      in re_sub bullet_pattern [] text)"

definition process_text :: "unicode_db \<Rightarrow> nlp_processor \<Rightarrow> pystr \<Rightarrow> pystr" where
  "process_text U self text =
     (if text = [] \<or> py_strip text = [] then text
      else
        let processed_text = fix_patterns U text;
            processed_text =
              (case nlp self of
                 None \<Rightarrow> processed_text
               | Some pipeline \<Rightarrow>
                   (case apply_spacy_processing U self pipeline processed_text of
                      Inl e \<Rightarrow> processed_text
                    | Inr t \<Rightarrow> t))
        in fix_paragraphs processed_text)"

section \<open>Images and the libraries behind them\<close>

text \<open>
  An image is a PIL image or a numpy array. PIL, numpy, OpenCV, pdfplumber and the
  file system are outside the repository: each call the program makes is a field
  of \<open>imaging\<close>. A call that can raise returns \<open>exn + _\<close>. No call changes its argument.
  \<open>warp_rotate img center angle size\<close> is \<^verbatim>\<open>getRotationMatrix2D(center, angle, 1.0)\<close>
  followed by \<^verbatim>\<open>warpAffine(img, M, size, INTER_CUBIC, BORDER_REPLICATE)\<close>.
\<close>

datatype ('pil, 'arr) image = Pil 'pil | Arr 'arr

record 'pil pdf_page =
  page_extract_text :: "pystr option"
  page_to_image :: 'pil

record ('pil, 'arr, 'cnt) imaging =
  np_array :: "'pil \<Rightarrow> exn + 'arr"
  fromarray :: "'arr \<Rightarrow> exn + 'pil"
  shape :: "'arr \<Rightarrow> nat list"
  np_std :: "'arr \<Rightarrow> real"
  cvtColor_BGR2GRAY :: "'arr \<Rightarrow> exn + 'arr"
  Laplacian_var :: "'arr \<Rightarrow> exn + real"
  convertScaleAbs :: "'arr \<Rightarrow> real \<Rightarrow> real \<Rightarrow> exn + 'arr"
  GaussianBlur :: "'arr \<Rightarrow> nat \<times> nat \<Rightarrow> exn + 'arr"
  adaptiveThreshold :: "'arr \<Rightarrow> nat \<Rightarrow> real \<Rightarrow> exn + 'arr"
  fastNlMeansDenoising :: "'arr \<Rightarrow> exn + 'arr"
  filter2D :: "'arr \<Rightarrow> int list list \<Rightarrow> exn + 'arr"
  threshold_otsu :: "'arr \<Rightarrow> bool \<Rightarrow> exn + 'arr"
  findContours :: "'arr \<Rightarrow> exn + 'cnt list"
  contourArea :: "'cnt \<Rightarrow> exn + real"
  minAreaRect_angle :: "'cnt \<Rightarrow> exn + real"
  warp_rotate :: "'arr \<Rightarrow> nat \<times> nat \<Rightarrow> real \<Rightarrow> nat \<times> nat \<Rightarrow> exn + 'arr"
  image_open :: "pystr \<Rightarrow> exn + 'pil"
  pdfplumber_open :: "pystr \<Rightarrow> exn + 'pil pdf_page list"

text \<open>Sequencing of calls that may raise: the first exception ends the sequence.\<close>

definition bind_exn :: "exn + 'a \<Rightarrow> ('a \<Rightarrow> exn + 'b) \<Rightarrow> exn + 'b" where
  "bind_exn x f = (case x of Inl e \<Rightarrow> Inl e | Inr v \<Rightarrow> f v)"

definition np_mean :: "real list \<Rightarrow> real" where
  "np_mean xs = sum_list xs / real (length xs)"

definition np_median :: "real list \<Rightarrow> real" where
  "np_median xs =
     (let s = sort xs; n = length s
      in if n mod 2 = 1 then s ! (n div 2) else (s ! (n div 2 - 1) + s ! (n div 2)) / 2)"

section \<open>The preprocessor: \<^verbatim>\<open>ImagePreprocessor\<close>\<close>

definition to_array :: "('pil, 'arr, 'cnt) imaging \<Rightarrow> ('pil, 'arr) image \<Rightarrow> exn + 'arr" where
  "to_array L img = (case img of Pil p \<Rightarrow> np_array L p | Arr a \<Rightarrow> Inr a)"

definition to_gray :: "('pil, 'arr, 'cnt) imaging \<Rightarrow> 'arr \<Rightarrow> exn + 'arr" where
  "to_gray L img_array =
     (if length (shape L img_array) = 3 \<and> shape L img_array ! 2 = 3
      then cvtColor_BGR2GRAY L img_array
      else Inr img_array)"

definition determine_enhancement_level :: "('pil, 'arr, 'cnt) imaging \<Rightarrow> 'arr \<Rightarrow> exn + string" where
  "determine_enhancement_level L img =
     bind_exn (Laplacian_var L img) (\<lambda>blur.
       let contrast = np_std L img in
       Inr (if blur > 100 \<and> contrast > 50 then ''low''
            else if blur > 50 \<and> contrast > 30 then ''medium''
            else ''high''))"

definition apply_low_enhancement :: "('pil, 'arr, 'cnt) imaging \<Rightarrow> 'arr \<Rightarrow> exn + 'arr" where
  "apply_low_enhancement L img =
     bind_exn (convertScaleAbs L img 1.1 0) (\<lambda>enhanced. GaussianBlur L enhanced (3, 3))"

definition apply_medium_enhancement :: "('pil, 'arr, 'cnt) imaging \<Rightarrow> 'arr \<Rightarrow> exn + 'arr" where
  "apply_medium_enhancement L img =
     bind_exn (convertScaleAbs L img 1.3 10) (\<lambda>enhanced.
     bind_exn (GaussianBlur L enhanced (3, 3)) (\<lambda>enhanced.
     adaptiveThreshold L enhanced 11 2))"

definition apply_high_enhancement :: "('pil, 'arr, 'cnt) imaging \<Rightarrow> 'arr \<Rightarrow> exn + 'arr" where
  "apply_high_enhancement L img =
     bind_exn (fastNlMeansDenoising L img) (\<lambda>denoised.
     bind_exn (convertScaleAbs L denoised 1.5 30) (\<lambda>enhanced.
     bind_exn (filter2D L enhanced [[-1, -1, -1], [-1, 9, -1], [-1, -1, -1]]) (\<lambda>enhanced.
     threshold_otsu L enhanced False)))"

definition preprocess ::
  "('pil, 'arr, 'cnt) imaging \<Rightarrow> ('pil, 'arr) image \<Rightarrow> string \<Rightarrow> exn + 'pil" where
  "preprocess L img enhance_level =
     bind_exn (to_array L img) (\<lambda>img_array.
     bind_exn (to_gray L img_array) (\<lambda>gray.
     bind_exn (if enhance_level = ''auto'' then determine_enhancement_level L gray
               else Inr enhance_level) (\<lambda>enhance_level.
     bind_exn (if enhance_level = ''low'' then apply_low_enhancement L gray
               else if enhance_level = ''medium'' then apply_medium_enhancement L gray
               else if enhance_level = ''high'' then apply_high_enhancement L gray
               else Inr gray) (\<lambda>processed.
     fromarray L processed))))"

text \<open>The loop of \<^verbatim>\<open>deskew\<close> over the contours; \<open>angles\<close> is the list built so far.\<close>

fun collect_angles :: "('pil, 'arr, 'cnt) imaging \<Rightarrow> 'cnt list \<Rightarrow> real list \<Rightarrow> exn + real list" where
  "collect_angles L [] angles = Inr angles"
| "collect_angles L (contour # contours) angles =
     bind_exn (contourArea L contour) (\<lambda>area.
       if area < 100 then collect_angles L contours angles
       else bind_exn (minAreaRect_angle L contour) (\<lambda>angle.
              collect_angles L contours (angles @ [if angle < - 45 then 90 + angle else angle])))"

text \<open>
  The body of the \<^verbatim>\<open>try\<close> of \<^verbatim>\<open>deskew\<close>, in its two parts: the detection of the angle
  and the rotation of the image by it. In \<^verbatim>\<open>deskew\<close> the conversions to an array and to
  grey come before the \<^verbatim>\<open>try\<close>: an exception of theirs leaves the function.
\<close>

definition detect_skew_angle :: "('pil, 'arr, 'cnt) imaging \<Rightarrow> 'arr \<Rightarrow> exn + real" where
  "detect_skew_angle L gray =
     bind_exn (threshold_otsu L gray True) (\<lambda>binary.
     bind_exn (findContours L binary) (\<lambda>contours.
     bind_exn (collect_angles L contours []) (\<lambda>angles.
     Inr (if angles \<noteq> [] then np_median angles else 0))))"

definition rotate_image :: "('pil, 'arr, 'cnt) imaging \<Rightarrow> 'arr \<Rightarrow> real \<Rightarrow> exn + 'pil" where
  "rotate_image L img_array median_angle =
     (case shape L img_array of
        h # w # _ \<Rightarrow>
          bind_exn (warp_rotate L img_array (w div 2, h div 2) median_angle (w, h)) (\<lambda>rotated.
          fromarray L rotated)
      | _ \<Rightarrow> Inl (Exn ''ValueError''))"

definition deskew ::
  "('pil, 'arr, 'cnt) imaging \<Rightarrow> ('pil, 'arr) image \<Rightarrow> exn + ('pil, 'arr) image" where
  "deskew L img =
     bind_exn (to_array L img) (\<lambda>img_array.
     bind_exn (to_gray L img_array) (\<lambda>gray.
       case bind_exn (detect_skew_angle L gray) (rotate_image L img_array) of
         Inr rotated \<Rightarrow> Inr (Pil rotated)
       | Inl e \<Rightarrow> Inr img))"

section \<open>The recognition model: \<^verbatim>\<open>OCRModel\<close>\<close>

text \<open>
  \<open>image_to_data\<close> is \<^verbatim>\<open>pytesseract.image_to_data\<close> with dictionary output, of which the
  program reads the lists \<^verbatim>\<open>text\<close> and \<^verbatim>\<open>conf\<close>.
\<close>

record tess_data =
  data_text :: "pystr list"
  data_conf :: "real list"

record 'pil ocr_model =
  lang :: pystr
  image_to_data :: "'pil \<Rightarrow> pystr \<Rightarrow> exn + tess_data"

definition language_mapping :: "(string \<times> string) list" where
  "language_mapping =
     [(''en'', ''eng''), (''es'', ''spa''), (''fr'', ''fra''),
      (''de'', ''deu''), (''it'', ''ita''), (''pt'', ''por''),
      (''nl'', ''nld''), (''ru'', ''rus''), (''zh'', ''chi_sim+chi_tra''),
      (''ja'', ''jpn''), (''ko'', ''kor''), (''ar'', ''ara''),
      (''hi'', ''hin''), (''bn'', ''ben''), (''pa'', ''pan''),
      (''te'', ''tel''), (''ta'', ''tam''), (''ur'', ''urd''),
      (''fa'', ''fas''), (''tr'', ''tur''), (''pl'', ''pol''),
      (''uk'', ''ukr''), (''vi'', ''vie''), (''th'', ''tha''),
      (''id'', ''ind'')]"

definition map_language_code :: "pystr \<Rightarrow> pystr" where
  "map_language_code lang_code =
     (if lang_code = s2p ''auto'' then s2p ''eng''
      else (case map_of (map (\<lambda>(k, v). (s2p k, s2p v)) language_mapping) lang_code of
              Some v \<Rightarrow> v
            | None \<Rightarrow> s2p ''eng''))"

definition extract_text_from_image ::
  "('pil, 'arr, 'cnt) imaging \<Rightarrow> 'pil ocr_model \<Rightarrow> ('pil, 'arr) image \<Rightarrow> pystr option
     \<Rightarrow> exn + pystr \<times> real" where
  "extract_text_from_image L self img lang_arg =
     bind_exn (case img of Arr a \<Rightarrow> fromarray L a | Pil p \<Rightarrow> Inr p) (\<lambda>img.
       let ocr_lang = (case lang_arg of
                         None \<Rightarrow> lang self
                       | Some l \<Rightarrow> if l \<noteq> [] then map_language_code l else lang self)
       in bind_exn (image_to_data self img ocr_lang) (\<lambda>data.
            let full_text = py_join [SP] (filter (\<lambda>word. py_strip word \<noteq> []) (data_text data));
                confidences = map fst (filter (\<lambda>(conf, text). py_strip text \<noteq> [] \<and> conf \<noteq> - 1)
                                         (zip (data_conf data) (data_text data)));
                confidence_score = (if confidences \<noteq> [] then np_mean confidences / 100 else 0.0)
            in Inr (full_text, confidence_score)))"

text \<open>One round of the loop over the pages: the text and the confidence it appends.\<close>

definition pdf_page ::
  "('pil, 'arr, 'cnt) imaging \<Rightarrow> 'pil ocr_model \<Rightarrow> pystr option \<Rightarrow> 'pil pdf_page
     \<Rightarrow> exn + pystr \<times> real" where
  "pdf_page L self lang_arg page =
     (case page_extract_text page of
        Some text \<Rightarrow>
          if text \<noteq> [] \<and> py_strip text \<noteq> [] then Inr (text, 0.95)
          else extract_text_from_image L self (Pil (page_to_image page)) lang_arg
      | None \<Rightarrow> extract_text_from_image L self (Pil (page_to_image page)) lang_arg)"

fun pdf_pages ::
  "('pil, 'arr, 'cnt) imaging \<Rightarrow> 'pil ocr_model \<Rightarrow> pystr option \<Rightarrow> 'pil pdf_page list
     \<Rightarrow> pystr list \<Rightarrow> real list \<Rightarrow> exn + pystr list \<times> real list" where
  "pdf_pages L self lang_arg [] extracted_texts confidence_scores =
     Inr (extracted_texts, confidence_scores)"
| "pdf_pages L self lang_arg (page # pages) extracted_texts confidence_scores =
     bind_exn (pdf_page L self lang_arg page) (\<lambda>(page_text, page_conf).
       pdf_pages L self lang_arg pages (extracted_texts @ [page_text])
         (confidence_scores @ [page_conf]))"

definition extract_text_from_pdf ::
  "('pil, 'arr, 'cnt) imaging \<Rightarrow> 'pil ocr_model \<Rightarrow> pystr \<Rightarrow> pystr option \<Rightarrow> exn + pystr \<times> real" where
  "extract_text_from_pdf L self pdf_path lang_arg =
     bind_exn (pdfplumber_open L pdf_path) (\<lambda>pages.
     bind_exn (pdf_pages L self lang_arg pages [] []) (\<lambda>(extracted_texts, confidence_scores).
       let full_text = py_join [NL, NL] extracted_texts;
           avg_confidence = (if confidence_scores \<noteq> [] then np_mean confidence_scores else 0.0)
       in Inr (full_text, avg_confidence)))"

section \<open>The orchestrator: \<^verbatim>\<open>TextExtractionService\<close>\<close>

text \<open>
  \<^verbatim>\<open>os.path.splitext\<close> of the POSIX path module: the extension starts at the last dot
  of the path, if that dot is behind the last slash and some character between the
  slash and the dot is not a dot. \<open>rfind\<close> is \<^verbatim>\<open>str.rfind\<close> for one character.
\<close>

definition rfind :: "codepoint \<Rightarrow> pystr \<Rightarrow> int" where
  "rfind c p =
     (if c \<in> set p then int (length p) - 1 - int (length (takeWhile (\<lambda>x. x \<noteq> c) (rev p)))
      else - 1)"

definition splitext :: "pystr \<Rightarrow> pystr \<times> pystr" where
  "splitext p =
     (let sepIndex = rfind 47 p; dotIndex = rfind 46 p
      in if dotIndex > sepIndex \<and>
            list_ex (\<lambda>c. c \<noteq> 46)
              (take (nat (dotIndex - (sepIndex + 1))) (drop (nat (sepIndex + 1)) p))
         then (take (nat dotIndex) p, drop (nat dotIndex) p)
         else (p, []))"

definition image_extensions :: "pystr list" where
  "image_extensions = map s2p [''.png'', ''.jpg'', ''.jpeg'', ''.bmp'', ''.tiff'', ''.gif'']"

definition determine_file_type :: "unicode_db \<Rightarrow> pystr \<Rightarrow> string" where
  "determine_file_type U file_path =
     (let ext = str_lower U (snd (splitext file_path))
      in if ext = s2p ''.pdf'' then ''pdf''
         else if ext \<in> set image_extensions then ''image''
         else ''unknown'')"

type_synonym handler = "pystr \<Rightarrow> pystr \<Rightarrow> exn + pystr \<times> real"

record 'pil service =
  ocr_model_of :: "'pil ocr_model"
  ml_model_of :: "ml_model option"
  nlp_processor_of :: nlp_processor
  file_handlers :: "string \<Rightarrow> handler option"

definition handle_pdf :: "('pil, 'arr, 'cnt) imaging \<Rightarrow> 'pil ocr_model \<Rightarrow> handler" where
  "handle_pdf L ocr file_path lang_arg = extract_text_from_pdf L ocr file_path (Some lang_arg)"

definition handle_image :: "('pil, 'arr, 'cnt) imaging \<Rightarrow> 'pil ocr_model \<Rightarrow> handler" where
  "handle_image L ocr file_path lang_arg =
     (case bind_exn (image_open L file_path) (\<lambda>img.
           bind_exn (preprocess L (Pil img) ''auto'') (\<lambda>preprocessed.
           bind_exn (deskew L (Pil preprocessed)) (\<lambda>deskewed.
           extract_text_from_image L ocr deskewed (Some lang_arg)))) of
        Inr r \<Rightarrow> Inr r
      | Inl e \<Rightarrow> Inr (s2p ''Image processing failed'', 0.0))"

text \<open>
  \<^verbatim>\<open>NLPProcessor()\<close> and \<^verbatim>\<open>TextExtractionService(ocr_model, ml_model, preprocessor)\<close>; the
  spaCy pipeline is there or not, as the installation has it.
\<close>

definition NLPProcessor_init ::
  "(pystr \<Rightarrow> exn + (pystr \<times> string) list) option \<Rightarrow> nlp_processor" where
  "NLPProcessor_init pipeline = \<lparr> enable_spell_check = True, enable_ner = True, nlp = pipeline \<rparr>"

definition TextExtractionService_init ::
  "('pil, 'arr, 'cnt) imaging \<Rightarrow> 'pil ocr_model \<Rightarrow> ml_model option
     \<Rightarrow> (pystr \<Rightarrow> exn + (pystr \<times> string) list) option \<Rightarrow> 'pil service" where
  "TextExtractionService_init L ocr ml pipeline =
     \<lparr> ocr_model_of = ocr, ml_model_of = ml, nlp_processor_of = NLPProcessor_init pipeline,
       file_handlers = map_of [(''pdf'', handle_pdf L ocr), (''image'', handle_image L ocr)] \<rparr>"

text \<open>
  \<^verbatim>\<open>extract_text\<close> returns its result together with the calls it made to the stages, in
  order: the handler of the file type, the corrector, the normalizer.
\<close>

datatype stage_call = Handler string | Enhance | Normalize

definition extract_text ::
  "unicode_db \<Rightarrow> 'pil service \<Rightarrow> pystr \<Rightarrow> pystr \<Rightarrow> bool \<Rightarrow> (exn + pystr \<times> real) \<times> stage_call list" where
  "extract_text U self file_path source_lang enhance =
     (let file_type = determine_file_type U file_path in
      case file_handlers self file_type of
        None \<Rightarrow> (Inr (s2p ''Unsupported file type'', 0.0), [])
      | Some handler \<Rightarrow>
          (case handler file_path source_lang of
             Inl e \<Rightarrow> (Inl e, [Handler file_type])
           | Inr (text, confidence) \<Rightarrow>
               (case (if enhance then ml_model_of self else None) of
                  Some ml \<Rightarrow>
                    (let (text, confidence) = enhance_text U ml text confidence;
                         text = process_text U (nlp_processor_of self) text
                     in (Inr (text, confidence), [Handler file_type, Enhance, Normalize]))
                | None \<Rightarrow>
                    (let text = process_text U (nlp_processor_of self) text
                     in (Inr (text, confidence), [Handler file_type, Normalize])))))"

section \<open>The paragraph fix-up described without regular expressions\<close>

text \<open>
  Three functions on texts, each written from a description in words, to compare
  \<^verbatim>\<open>_fix_paragraphs\<close> with. \<open>after_nl\<close> says that the character before the text is a
  newline.

  \<open>single_newlines\<close>: a newline that has no newline before it and none behind it
  becomes a space.
\<close>

fun single_newlines :: "bool \<Rightarrow> pystr \<Rightarrow> pystr" where
  "single_newlines after_nl [] = []"
| "single_newlines after_nl (c # cs) =
     (if c = NL \<and> \<not> after_nl \<and> (case cs of [] \<Rightarrow> True | d # _ \<Rightarrow> d \<noteq> NL) then SP else c)
     # single_newlines (c = NL) cs"

text \<open>
  \<open>collapse_newlines\<close>: a maximal run of three or more newlines becomes two newlines;
  a shorter run and every other character stay.
\<close>

function collapse_newlines :: "pystr \<Rightarrow> pystr" where
  "collapse_newlines [] = []"
| "collapse_newlines (c # cs) =
     (if c = NL
      then (if 2 \<le> length (takeWhile is_newline cs) then [NL, NL]
            else NL # takeWhile is_newline cs)
           @ collapse_newlines (dropWhile is_newline cs)
      else c # collapse_newlines cs)"
  by pat_completeness auto
termination
proof (relation "measure length")
  show "wf (measure length)" by simp
next
  fix c :: codepoint and cs :: pystr
  show "(dropWhile is_newline cs, c # cs) \<in> measure length"
    using length_dropWhile_le [of is_newline cs] by simp
next
  fix c :: codepoint and cs :: pystr
  show "(cs, c # cs) \<in> measure length" by simp
qed

text \<open>
  \<open>spec_strip_bullet_indent\<close>, the third rewrite as the specification words it: white
  space at the start of a line, behind a newline, that is directly followed by a
  bullet is removed.
\<close>

function spec_strip_bullet_indent :: "bool \<Rightarrow> pystr \<Rightarrow> pystr" where
  "spec_strip_bullet_indent after_nl [] = []"
| "spec_strip_bullet_indent after_nl (c # cs) =
     (if after_nl \<and> isspace c \<and> (case dropWhile isspace cs of [] \<Rightarrow> False | d # _ \<Rightarrow> d = BULLET)
      then spec_strip_bullet_indent False (dropWhile isspace cs)
      else c # spec_strip_bullet_indent (c = NL) cs)"
  by pat_completeness auto
termination
proof (relation "measure (\<lambda>(after_nl, s). length s)")
  show "wf (measure (\<lambda>(after_nl :: bool, s :: pystr). length s))" by simp
next
  fix after_nl :: bool and c :: codepoint and cs :: pystr
  show "((False, dropWhile isspace cs), (after_nl, c # cs)) \<in> measure (\<lambda>(after_nl, s). length s)"
    using length_dropWhile_le [of isspace cs] by simp
next
  fix after_nl :: bool and c :: codepoint and cs :: pystr
  show "((c = NL, cs), (after_nl, c # cs)) \<in> measure (\<lambda>(after_nl, s). length s)" by simp
qed

definition spec_fix_paragraphs :: "pystr \<Rightarrow> pystr" where
  "spec_fix_paragraphs text =
     spec_strip_bullet_indent False (collapse_newlines (single_newlines False text))"

text \<open>
  \<open>strip_bullet_lead\<close>, the third rewrite as the program has it: behind a newline, when
  the run of white space, bullets and hyphens that starts there holds a bullet, the
  part of the run before its last bullet is removed. The character behind the run
  is none of the three, so nothing is removed there.
\<close>

function strip_bullet_lead :: "bool \<Rightarrow> pystr \<Rightarrow> pystr" where
  "strip_bullet_lead after_nl [] = []"
| "strip_bullet_lead after_nl (c # cs) =
     (if after_nl \<and> BULLET \<in> set (takeWhile bullet_lead (c # cs))
      then BULLET # rev (takeWhile (\<lambda>x. x \<noteq> BULLET) (rev (takeWhile bullet_lead (c # cs))))
           @ strip_bullet_lead False (dropWhile bullet_lead (c # cs))
      else c # strip_bullet_lead (c = NL) cs)"
  by pat_completeness auto
termination
proof (relation "measure (\<lambda>(after_nl, s). length s)")
  show "wf (measure (\<lambda>(after_nl :: bool, s :: pystr). length s))" by simp
next
  fix after_nl :: bool and c :: codepoint and cs :: pystr
  assume "after_nl \<and> BULLET \<in> set (takeWhile bullet_lead (c # cs))"
  then have "bullet_lead c" by (cases "bullet_lead c") auto
  then show "((False, dropWhile bullet_lead (c # cs)), (after_nl, c # cs))
             \<in> measure (\<lambda>(after_nl, s). length s)"
    using length_dropWhile_le [of bullet_lead cs] by simp
next
  fix after_nl :: bool and c :: codepoint and cs :: pystr
  show "((c = NL, cs), (after_nl, c # cs)) \<in> measure (\<lambda>(after_nl, s). length s)" by simp
qed

text \<open>\<open>starts_bullet\<close>: the look-ahead of the bullet pattern.\<close>

definition starts_bullet :: "pystr \<Rightarrow> bool" where
  "starts_bullet xs = (case xs of [] \<Rightarrow> False | c # _ \<Rightarrow> c = BULLET)"

section \<open>A simulated installation for the examples\<close>

text \<open>
  In the examples an image is a number and has two dimensions, a contour is its area
  and the angle of its bounding rectangle, thresholding fails on image 0, and the recognition reads the
  words \<open>Hello\<close>, an empty box and \<open>World\<close> from every image.
\<close>

definition demo_pages :: "nat pdf_page list" where
  "demo_pages =
     [\<lparr> page_extract_text = Some (s2p ''Native text''), page_to_image = 1 \<rparr>,
      \<lparr> page_extract_text = None, page_to_image = 2 \<rparr>]"

definition demo_imaging :: "(nat, nat, real \<times> real) imaging" where
  "demo_imaging =
     \<lparr> np_array = Inr, fromarray = Inr, shape = (\<lambda>a. [20, 10]), np_std = (\<lambda>a. 50),
       cvtColor_BGR2GRAY = Inr, Laplacian_var = (\<lambda>a. Inr 100),
       convertScaleAbs = (\<lambda>a alpha beta. Inr a), GaussianBlur = (\<lambda>a k. Inr a),
       adaptiveThreshold = (\<lambda>a b c. Inr a), fastNlMeansDenoising = Inr,
       filter2D = (\<lambda>a k. Inr a),
       threshold_otsu = (\<lambda>a inv. if a = 0 then Inl (Exn ''cv2.error'') else Inr a),
       findContours = (\<lambda>a. Inr [(50, 10), (99, - 60)]),
       contourArea = (\<lambda>c. Inr (fst c)), minAreaRect_angle = (\<lambda>c. Inr (snd c)),
       warp_rotate = (\<lambda>a center angle size. Inr a),
       image_open = (\<lambda>path. Inr 1), pdfplumber_open = (\<lambda>path. Inr demo_pages) \<rparr>"


definition demo_words :: "(pystr \<times> real) list" where
  "demo_words = [(s2p ''Hello'', 90), ([], - 1), (s2p ''World'', 80)]"

definition demo_ocr :: "nat ocr_model" where
  "demo_ocr =
     \<lparr> lang = s2p ''eng'',
       image_to_data = (\<lambda>img l. Inr \<lparr> data_text = map fst demo_words, data_conf = map snd demo_words \<rparr>) \<rparr>"

definition failing_ocr :: "nat ocr_model" where
  "failing_ocr = \<lparr> lang = s2p ''eng'', image_to_data = (\<lambda>img l. Inl (Exn ''TesseractError'')) \<rparr>"

section \<open>Properties\<close>

subsection \<open>Blank texts\<close>

lemma py_strip_empty_iff: "py_strip s = [] \<longleftrightarrow> (\<forall>c\<in>set s. isspace c)"
proof
  assume "py_strip s = []"
  then have all: "\<forall>x\<in>set (dropWhile isspace s). isspace x"
    by (simp add: py_strip_def dropWhile_eq_Nil_conv)
  have "dropWhile isspace s = []"
  proof (rule ccontr)
    assume ne: "dropWhile isspace s \<noteq> []"
    then have "\<not> isspace (hd (dropWhile isspace s))" by (rule hd_dropWhile)
    moreover have "hd (dropWhile isspace s) \<in> set (dropWhile isspace s)" using ne by simp
    ultimately show False using all by blast
  qed
  then show "\<forall>c\<in>set s. isspace c" by (simp add: dropWhile_eq_Nil_conv)
next
  assume "\<forall>c\<in>set s. isspace c"
  then show "py_strip s = []" by (auto simp: py_strip_def dest: set_dropWhileD)
qed

subsection \<open>Quality tier\<close>

text \<open>
  Claim C2. The tier is a decision on the blur and contrast metrics with strict
  thresholds: low exactly when blur > 100 and contrast > 50; medium exactly when
  that fails and blur > 50 and contrast > 30; high otherwise. At blur = 100 and
  contrast = 50 the tier is medium, not low.
\<close>

theorem tier_selection:
  assumes "Laplacian_var L img = Inr blur" and "np_std L img = contrast"
  shows "(determine_enhancement_level L img = Inr ''low'' \<longleftrightarrow> blur > 100 \<and> contrast > 50)
       \<and> (determine_enhancement_level L img = Inr ''medium'' \<longleftrightarrow>
            \<not> (blur > 100 \<and> contrast > 50) \<and> blur > 50 \<and> contrast > 30)
       \<and> (determine_enhancement_level L img = Inr ''high'' \<longleftrightarrow>
            \<not> (blur > 100 \<and> contrast > 50) \<and> \<not> (blur > 50 \<and> contrast > 30))
       \<and> (blur = 100 \<and> contrast = 50 \<longrightarrow> determine_enhancement_level L img = Inr ''medium'')"
  using assms by (auto simp: determine_enhancement_level_def bind_exn_def)

theorem tier_selection_witness:
  "Laplacian_var demo_imaging 1 = Inr 100 \<and> np_std demo_imaging 1 = 50
   \<and> determine_enhancement_level demo_imaging 1 = Inr ''medium''
   \<and> determine_enhancement_level demo_imaging 1 \<noteq> Inr ''low''"
proof -
  have a: "Laplacian_var demo_imaging 1 = Inr 100" by (simp add: demo_imaging_def)
  have b: "np_std demo_imaging 1 = 50" by (simp add: demo_imaging_def)
  show ?thesis using a b tier_selection [OF a b] by simp
qed

subsection \<open>Binary64 values\<close>

text \<open>Rounding keeps the sign, and the constants of the corrector are these fractions.\<close>

lemma round_half_even_nonneg: "0 \<le> y \<Longrightarrow> 0 \<le> round_half_even y"
  by (auto simp: round_half_even_def Let_def)

lemma pow2_pos: "0 < pow2 e"
  by (simp add: pow2_def)

lemma normalise64_nonneg: "0 \<le> y \<Longrightarrow> 0 \<le> fst (normalise64 n y e)"
proof (induction n y e rule: normalise64.induct)
  case (1 n y e)
  show ?case using 1 by (subst normalise64.simps) auto
qed

lemma round64_nonneg: "0 \<le> x \<Longrightarrow> 0 \<le> round64 x"
proof (cases "x = 0")
  case True
  then show ?thesis by (simp add: round64_def)
next
  case False
  assume "0 \<le> x"
  obtain y e where n: "normalise64 2200 \<bar>x\<bar> 0 = (y, e)" by (cases "normalise64 2200 \<bar>x\<bar> 0")
  have "0 \<le> y" using normalise64_nonneg [of "\<bar>x\<bar>" 2200 0] n by simp
  then have "0 \<le> of_int (round_half_even y) * pow2 e"
    using round_half_even_nonneg [of y] pow2_pos [of e] by simp
  then show ?thesis using False \<open>0 \<le> x\<close> n by (simp add: round64_def sgn_real_def)
qed

lemma fmul_nonneg: "0 \<le> x \<Longrightarrow> 0 \<le> y \<Longrightarrow> 0 \<le> fmul x y"
  by (simp add: fmul_def round64_nonneg)

lemma d64_nonneg: "0 \<le> x \<Longrightarrow> 0 \<le> d64 x"
  by (simp add: d64_def round64_nonneg)

lemmas eval64 = d64_def fmul_def round64_def normalise64.simps round_half_even_def pow2_def Let_def

lemma d64_085: "d64 0.85 = 7656119366529843 / 2 ^ 53"
  by (simp add: eval64)

lemma d64_09: "d64 0.9 = 8106479329266893 / 2 ^ 53"
  by (simp add: eval64)

lemma d64_0945: "d64 0.945 = 8511803295730237 / 2 ^ 53"
  by (simp add: eval64)

lemma d64_105: "d64 1.05 = 4728779608739021 / 2 ^ 52"
  by (simp add: eval64)

lemma d64_115: "d64 1.15 = 5179139571476070 / 2 ^ 52"
  by (simp add: eval64)

lemma fmul_09_105: "fmul (d64 0.9) (d64 1.05) = 8511803295730238 / 2 ^ 53"
  unfolding d64_09 d64_105 by (simp add: eval64)

lemma fmul_05_115: "fmul 0.5 (d64 1.15) = 5179139571476070 / 2 ^ 53"
  unfolding d64_115 by (simp add: eval64)

lemma enhance_text_09:
  "s \<noteq> [] \<Longrightarrow> py_strip s \<noteq> [] \<Longrightarrow>
   enhance_text U m s (d64 0.9) = (apply_rule_based_corrections U s, 8511803295730238 / 2 ^ 53)"
proof -
  assume a: "s \<noteq> []" "py_strip s \<noteq> []"
  have "\<not> d64 0.9 < d64 0.85" unfolding d64_09 d64_085 by simp
  then show ?thesis using a fmul_09_105 by (simp add: enhance_text_def Let_def)
qed

subsection \<open>Confidence\<close>

text \<open>
  Claim C1. For every text and every starting confidence in [0, 1], the corrector
  followed by the normalizer gives a confidence in [0, 1], whatever the model is
  (initialized or not, its inference raising or not) and whether or not the text
  is blank.
\<close>

theorem confidence_in_unit_interval:
  assumes "0 \<le> c" and "c \<le> 1"
  shows "0 \<le> snd (case enhance_text U m s c of (t, c') \<Rightarrow> (process_text U P t, c'))
       \<and> snd (case enhance_text U m s c of (t, c') \<Rightarrow> (process_text U P t, c')) \<le> 1"
proof -
  have "0 \<le> fmul c (d64 1.15)" "0 \<le> fmul c (d64 1.05)"
    using assms by (simp_all add: fmul_nonneg d64_nonneg)
  then show ?thesis
    using assms by (auto simp: enhance_text_def Let_def split: sum.splits)
qed

theorem confidence_in_unit_interval_witness:
  "(0::real) \<le> 0.5 \<and> (0.5::real) \<le> 1
   \<and> 0 \<le> snd (case enhance_text ascii_db
                     \<lparr>initialized = True, ml_corrections = placeholder_ml_corrections\<rparr> (s2p ''a1'') 0.5
                 of (t, c') \<Rightarrow> (process_text ascii_db (NLPProcessor_init None) t, c'))
   \<and> snd (case enhance_text ascii_db
                 \<lparr>initialized = True, ml_corrections = placeholder_ml_corrections\<rparr> (s2p ''a1'') 0.5
             of (t, c') \<Rightarrow> (process_text ascii_db (NLPProcessor_init None) t, c')) \<le> 1"
proof -
  have a: "(0::real) \<le> 0.5" by simp
  have b: "(0.5::real) \<le> 1" by simp
  show ?thesis
    using a b confidence_in_unit_interval [OF a b, where U = ascii_db
        and m = "\<lparr>initialized = True, ml_corrections = placeholder_ml_corrections\<rparr>"
        and s = "s2p ''a1''" and P = "NLPProcessor_init None"]
    by blast
qed

text \<open>
  Claim C5, amended. Step B, which a text that is not blank reaches, computes in
  binary64: with an initialized model and a confidence below 0.85 the inference runs;
  when it returns, the confidence is the rounded product of the confidence and 1.15,
  clamped to 1; when it raises, the text of step A is kept and the confidence is
  unchanged. Otherwise the text of step A is returned with the rounded product of the
  confidence and 1.05, clamped to 1, so from 0.9 the result is
  8511803295730238 / 2^53, printed 0.9450000000000001. For every text, blank or not:
  from 0.5 with an initialized model the result is at most 0.575; from 0.9 it is
  less than 0.945 + 2^-53, and it is the same whatever the inference of the model is.
\<close>

theorem step_b_confidence_gate:
  "(s \<noteq> [] \<and> py_strip s \<noteq> [] \<longrightarrow>
      (initialized m \<and> c < d64 0.85 \<longrightarrow>
         (\<forall>t. ml_corrections m (apply_rule_based_corrections U s) = Inr t \<longrightarrow>
              enhance_text U m s c = (t, min 1 (fmul c (d64 1.15))))
       \<and> (\<forall>e. ml_corrections m (apply_rule_based_corrections U s) = Inl e \<longrightarrow>
              enhance_text U m s c = (apply_rule_based_corrections U s, c)))
    \<and> (\<not> initialized m \<or> d64 0.85 \<le> c \<longrightarrow>
         enhance_text U m s c = (apply_rule_based_corrections U s, min 1 (fmul c (d64 1.05))))
    \<and> enhance_text U m s (d64 0.9)
       = (apply_rule_based_corrections U s, 8511803295730238 / 2 ^ 53))
   \<and> (initialized m \<longrightarrow> snd (enhance_text U m s 0.5) \<le> 0.575)
   \<and> snd (enhance_text U m s (d64 0.9)) \<le> 0.945 + 1 / 2 ^ 53
   \<and> enhance_text U m s (d64 0.9) = enhance_text U (m\<lparr>ml_corrections := f\<rparr>) s (d64 0.9)"
proof -
  have gate: "s \<noteq> [] \<and> py_strip s \<noteq> [] \<longrightarrow>
      (initialized m \<and> c < d64 0.85 \<longrightarrow>
         (\<forall>t. ml_corrections m (apply_rule_based_corrections U s) = Inr t \<longrightarrow>
              enhance_text U m s c = (t, min 1 (fmul c (d64 1.15))))
       \<and> (\<forall>e. ml_corrections m (apply_rule_based_corrections U s) = Inl e \<longrightarrow>
              enhance_text U m s c = (apply_rule_based_corrections U s, c)))
    \<and> (\<not> initialized m \<or> d64 0.85 \<le> c \<longrightarrow>
         enhance_text U m s c = (apply_rule_based_corrections U s, min 1 (fmul c (d64 1.05))))
    \<and> enhance_text U m s (d64 0.9)
       = (apply_rule_based_corrections U s, 8511803295730238 / 2 ^ 53)"
    using enhance_text_09 [of s U m]
    by (auto simp: enhance_text_def Let_def split: sum.splits)
  have blank: "snd (enhance_text U m s x) = x" if "s = [] \<or> py_strip s = []" for x
    using that by (auto simp: enhance_text_def)
  have half: "initialized m \<longrightarrow> snd (enhance_text U m s 0.5) \<le> 0.575"
  proof (cases "s = [] \<or> py_strip s = []")
    case True
    then show ?thesis using blank [of "0.5"] by simp
  next
    case False
    have lt: "(0.5::real) < d64 0.85" unfolding d64_085 by simp
    have "min 1 (fmul 0.5 (d64 1.15)) \<le> (0.575::real)" unfolding fmul_05_115 by simp
    then show ?thesis using False lt
      by (auto simp: enhance_text_def Let_def split: sum.splits)
  qed
  have nine: "snd (enhance_text U m s (d64 0.9)) \<le> 0.945 + 1 / 2 ^ 53"
  proof (cases "s = [] \<or> py_strip s = []")
    case True
    then show ?thesis using blank [of "d64 0.9"] unfolding d64_09 by simp
  next
    case False
    then show ?thesis using enhance_text_09 [of s U m] by simp
  qed
  have same: "enhance_text U m s (d64 0.9) = enhance_text U (m\<lparr>ml_corrections := f\<rparr>) s (d64 0.9)"
  proof (cases "s = [] \<or> py_strip s = []")
    case True
    then show ?thesis by (auto simp: enhance_text_def)
  next
    case False
    then show ?thesis
      using enhance_text_09 [of s U m] enhance_text_09 [of s U "m\<lparr>ml_corrections := f\<rparr>"] by simp
  qed
  show ?thesis using gate half nine same by blast
qed

theorem step_b_confidence_gate_witness:
  "enhance_text ascii_db \<lparr>initialized = True, ml_corrections = placeholder_ml_corrections\<rparr>
        (s2p ''a1'') (d64 0.9)
     = (apply_rule_based_corrections ascii_db (s2p ''a1''), 8511803295730238 / 2 ^ 53)
   \<and> snd (enhance_text ascii_db \<lparr>initialized = True, ml_corrections = placeholder_ml_corrections\<rparr>
        (s2p ''a1'') 0.5) \<le> 0.575
   \<and> enhance_text ascii_db \<lparr>initialized = True, ml_corrections = (\<lambda>t. Inl (Exn ''inference''))\<rparr>
        (s2p ''a1'') 0.5 = (apply_rule_based_corrections ascii_db (s2p ''a1''), 0.5)"
proof -
  have a: "s2p ''a1'' \<noteq> [] \<and> py_strip (s2p ''a1'') \<noteq> []"
    by (simp add: py_strip_def s2p_def isspace_def)
  have lt: "(0.5::real) < d64 0.85" unfolding d64_085 by simp
  have "enhance_text ascii_db \<lparr>initialized = True, ml_corrections = placeholder_ml_corrections\<rparr>
        (s2p ''a1'') (d64 0.9)
     = (apply_rule_based_corrections ascii_db (s2p ''a1''), 8511803295730238 / 2 ^ 53)
   \<and> snd (enhance_text ascii_db \<lparr>initialized = True, ml_corrections = placeholder_ml_corrections\<rparr>
        (s2p ''a1'') 0.5) \<le> 0.575"
    using a step_b_confidence_gate [where U = ascii_db and c = 0 and s = "s2p ''a1''"
        and m = "\<lparr>initialized = True, ml_corrections = placeholder_ml_corrections\<rparr>"]
    by simp
  moreover have "enhance_text ascii_db
        \<lparr>initialized = True, ml_corrections = (\<lambda>t. Inl (Exn ''inference''))\<rparr>
        (s2p ''a1'') 0.5 = (apply_rule_based_corrections ascii_db (s2p ''a1''), 0.5)"
    using a lt step_b_confidence_gate [where U = ascii_db and c = "0.5" and s = "s2p ''a1''"
        and m = "\<lparr>initialized = True, ml_corrections = (\<lambda>t. Inl (Exn ''inference''))\<rparr>"]
    by simp
  ultimately show ?thesis by simp
qed

text \<open>
  The claim C5 as stated fails at 0.9: the rounded product of the binary64 values of
  0.9 and 1.05 is above 0.945, and above the binary64 value of 0.945 too, which is
  8511803295730237 / 2^53.
\<close>

theorem step_b_confidence_gate_counterexample:
  "0.945 < snd (enhance_text ascii_db
                  \<lparr>initialized = True, ml_corrections = placeholder_ml_corrections\<rparr>
                  (s2p ''a1'') (d64 0.9))
   \<and> d64 0.945 < snd (enhance_text ascii_db
                  \<lparr>initialized = True, ml_corrections = placeholder_ml_corrections\<rparr>
                  (s2p ''a1'') (d64 0.9))"
proof -
  have a: "s2p ''a1'' \<noteq> []" "py_strip (s2p ''a1'') \<noteq> []"
    by (simp_all add: py_strip_def s2p_def isspace_def)
  show ?thesis unfolding enhance_text_09 [OF a] d64_0945 by simp
qed

text \<open>
  Claim C7. A text that is empty or consists of white space only is returned
  unchanged by the corrector, with its confidence unchanged, and unchanged by the
  normalizer.
\<close>

theorem blank_text_unchanged:
  assumes "\<forall>ch\<in>set s. isspace ch"
  shows "enhance_text U m s c = (s, c) \<and> process_text U P s = s"
  using assms by (simp add: enhance_text_def process_text_def py_strip_empty_iff)

theorem blank_text_unchanged_witness:
  "isspace SP \<and> isspace NL \<and> isspace 9
   \<and> enhance_text ascii_db \<lparr>initialized = True, ml_corrections = placeholder_ml_corrections\<rparr> [SP, NL, 9] 0.5
       = ([SP, NL, 9], 0.5)
   \<and> process_text ascii_db (NLPProcessor_init None) [SP, NL, 9] = [SP, NL, 9]"
proof -
  have a: "\<forall>ch\<in>set [SP, NL, 9]. isspace ch" by (simp add: isspace_def)
  show ?thesis using a blank_text_unchanged [OF a] by simp
qed


subsection \<open>Recognition\<close>

lemma valid_confidences:
  "map fst (filter (\<lambda>(conf, t). P t \<and> conf \<noteq> - 1) (zip (map snd ws) (map fst ws)))
   = map snd (filter (\<lambda>(t, conf). P t \<and> conf \<noteq> - 1) ws)"
  by (induction ws) auto

lemma valid_confidences_nil:
  "(filter (\<lambda>(conf, t). P t \<and> conf \<noteq> - 1) (zip (map snd ws) (map fst ws)) = [])
   = (filter (\<lambda>(t, conf). P t \<and> conf \<noteq> - 1) ws = [])"
  using valid_confidences [of P ws] by (metis map_is_Nil_conv)

text \<open>
  Claim C3. For every list of recognized words (text, raw confidence), the raster
  path returns the texts that are not blank joined by single spaces, and as confidence
  the mean of the raw confidences of the words whose text is not blank and whose
  confidence is not -1, divided by 100, or 0 when there is no such word. The words
  (Hello, 90), (empty, -1), (World, 80) give the text "Hello World" and 0.85.
\<close>

theorem raster_path:
  fixes ws :: "(pystr \<times> real) list"
  assumes "(case img of Arr a \<Rightarrow> fromarray L a | Pil p \<Rightarrow> Inr p) = Inr pil"
    and "image_to_data ocr pil
           (case lang_arg of None \<Rightarrow> lang ocr
            | Some l \<Rightarrow> if l \<noteq> [] then map_language_code l else lang ocr)
         = Inr \<lparr> data_text = map fst ws, data_conf = map snd ws \<rparr>"
  shows "extract_text_from_image L ocr img lang_arg
         = Inr (py_join [SP] (filter (\<lambda>w. \<exists>c\<in>set w. \<not> isspace c) (map fst ws)),
                (let valid = filter (\<lambda>(t, conf). (\<exists>c\<in>set t. \<not> isspace c) \<and> conf \<noteq> - 1) ws
                 in if valid = [] then 0
                    else sum_list (map snd valid) / real (length valid) / 100))
       \<and> (ws = [(s2p ''Hello'', 90), ([], - 1), (s2p ''World'', 80)] \<longrightarrow>
            extract_text_from_image L ocr img lang_arg = Inr (s2p ''Hello World'', 0.85))"
proof -
  let ?P = "\<lambda>w. \<exists>c\<in>set w. \<not> isspace c"
  have P: "\<And>w. (py_strip w \<noteq> []) = ?P w" by (simp add: py_strip_empty_iff)
  let ?valid = "filter (\<lambda>(t, conf). ?P t \<and> conf \<noteq> - 1) ws"
  have gen: "extract_text_from_image L ocr img lang_arg
         = Inr (py_join [SP] (filter ?P (map fst ws)),
                (if ?valid = [] then 0
                    else sum_list (map snd ?valid) / real (length ?valid) / 100))"
    using assms valid_confidences [of ?P ws] valid_confidences_nil [of ?P ws]
    by (simp add: extract_text_from_image_def bind_exn_def Let_def P np_mean_def)
  have ex: "extract_text_from_image L ocr img lang_arg = Inr (s2p ''Hello World'', 0.85)"
    if "ws = [(s2p ''Hello'', 90), ([], - 1), (s2p ''World'', 80)]"
    unfolding gen that by (simp add: s2p_def isspace_def)
  show ?thesis using gen ex by (simp add: Let_def)
qed

theorem raster_path_witness:
  "extract_text_from_image demo_imaging demo_ocr (Pil 7) (Some (s2p ''en''))
   = Inr (s2p ''Hello World'', 0.85)"
proof -
  have a: "(case (Pil 7 :: (nat, nat) image) of Arr a \<Rightarrow> fromarray demo_imaging a | Pil p \<Rightarrow> Inr p) = Inr 7"
    by simp
  have b: "image_to_data demo_ocr 7
           (case Some (s2p ''en'') of None \<Rightarrow> lang demo_ocr
            | Some l \<Rightarrow> if l \<noteq> [] then map_language_code l else lang demo_ocr)
         = Inr \<lparr> data_text = map fst demo_words, data_conf = map snd demo_words \<rparr>"
    by (simp add: demo_ocr_def)
  show ?thesis using raster_path [OF a b, THEN conjunct2] by (simp add: demo_words_def)
qed

lemma pdf_pages_acc:
  "map (pdf_page L ocr lang_arg) pages = map Inr rs \<Longrightarrow>
   pdf_pages L ocr lang_arg pages texts confs = Inr (texts @ map fst rs, confs @ map snd rs)"
proof (induction pages arbitrary: rs texts confs)
  case Nil
  then show ?case by simp
next
  case (Cons page pages)
  then obtain r rs' where rs: "rs = r # rs'" by (cases rs) auto
  with Cons.prems have h: "pdf_page L ocr lang_arg page = Inr r"
    and t: "map (pdf_page L ocr lang_arg) pages = map Inr rs'" by auto
  show ?case using Cons.IH [OF t] h rs by (cases r) (simp add: bind_exn_def)
qed

lemma demo_recognition:
  "extract_text_from_image demo_imaging demo_ocr (Pil p) None = Inr (s2p ''Hello World'', 0.85)"
  by (simp add: extract_text_from_image_def bind_exn_def demo_ocr_def demo_words_def np_mean_def
      py_strip_def s2p_def isspace_def Let_def)

text \<open>
  Claim C4. A page whose native text is present and not blank contributes that text
  verbatim with confidence 0.95, whatever the library, the recognition model and the
  language are: the recognition is not consulted. When every page gives a result,
  the text of the document is the texts of the pages joined by a blank line and its
  confidence is the mean of the confidences of the pages; a document without pages
  has confidence 0.
\<close>

theorem pdf_text_layer:
  "(page_extract_text page = Some t \<and> (\<exists>c\<in>set t. \<not> isspace c) \<longrightarrow>
      pdf_page L ocr lang_arg page = Inr (t, 0.95)
      \<and> pdf_page L ocr lang_arg page = pdf_page L' ocr' lang_arg' page)
   \<and> (pdfplumber_open L path = Inr pages \<and> map (pdf_page L ocr lang_arg) pages = map Inr rs \<longrightarrow>
        extract_text_from_pdf L ocr path lang_arg
        = Inr (py_join [NL, NL] (map fst rs),
               if rs = [] then 0 else sum_list (map snd rs) / real (length rs)))
   \<and> (pdfplumber_open L path = Inr [] \<longrightarrow> extract_text_from_pdf L ocr path lang_arg = Inr ([], 0))"
proof (intro conjI impI)
  assume a: "page_extract_text page = Some t \<and> (\<exists>c\<in>set t. \<not> isspace c)"
  then have ne: "t \<noteq> []" "py_strip t \<noteq> []" by (auto simp: py_strip_empty_iff)
  show "pdf_page L ocr lang_arg page = Inr (t, 0.95)" using a ne by (simp add: pdf_page_def)
  show "pdf_page L ocr lang_arg page = pdf_page L' ocr' lang_arg' page"
    using a ne by (simp add: pdf_page_def)
next
  assume a: "pdfplumber_open L path = Inr pages \<and> map (pdf_page L ocr lang_arg) pages = map Inr rs"
  then show "extract_text_from_pdf L ocr path lang_arg
        = Inr (py_join [NL, NL] (map fst rs),
               if rs = [] then 0 else sum_list (map snd rs) / real (length rs))"
    using pdf_pages_acc [of L ocr lang_arg pages rs "[]" "[]"]
    by (simp add: extract_text_from_pdf_def bind_exn_def np_mean_def)
next
  assume "pdfplumber_open L path = Inr []"
  then show "extract_text_from_pdf L ocr path lang_arg = Inr ([], 0)"
    by (simp add: extract_text_from_pdf_def bind_exn_def)
qed

theorem pdf_text_layer_witness:
  "pdf_page demo_imaging failing_ocr None (hd demo_pages) = Inr (s2p ''Native text'', 0.95)
   \<and> extract_text_from_pdf demo_imaging demo_ocr (s2p ''doc.pdf'') None
       = Inr (s2p ''Native text'' @ [NL, NL] @ s2p ''Hello World'', 0.9)"
proof -
  have p: "page_extract_text (hd demo_pages) = Some (s2p ''Native text'')
           \<and> (\<exists>c\<in>set (s2p ''Native text''). \<not> isspace c)"
    by (simp add: demo_pages_def s2p_def isspace_def)
  have first: "pdf_page demo_imaging failing_ocr None (hd demo_pages) = Inr (s2p ''Native text'', 0.95)"
    using pdf_text_layer [where page = "hd demo_pages" and t = "s2p ''Native text''"
        and L = demo_imaging and ocr = failing_ocr and lang_arg = None, THEN conjunct1] p
    by blast
  have ocr2: "extract_text_from_image demo_imaging demo_ocr (Pil 2) None
        = Inr (s2p ''Hello World'', 0.85)"
    by (rule demo_recognition)
  have q: "pdfplumber_open demo_imaging (s2p ''doc.pdf'') = Inr demo_pages
           \<and> map (pdf_page demo_imaging demo_ocr None) demo_pages
               = map Inr [(s2p ''Native text'', 0.95), (s2p ''Hello World'', 0.85)]"
    using ocr2 by (simp add: demo_imaging_def demo_pages_def pdf_page_def py_strip_def s2p_def isspace_def)
  have "extract_text_from_pdf demo_imaging demo_ocr (s2p ''doc.pdf'') None
        = Inr (py_join [NL, NL] (map fst [(s2p ''Native text'', 0.95), (s2p ''Hello World'', 0.85 :: real)]),
               if [(s2p ''Native text'', 0.95), (s2p ''Hello World'', 0.85 :: real)] = [] then 0
               else sum_list (map snd [(s2p ''Native text'', 0.95), (s2p ''Hello World'', 0.85 :: real)])
                    / real (length [(s2p ''Native text'', 0.95), (s2p ''Hello World'', 0.85 :: real)]))"
    using pdf_text_layer [where L = demo_imaging and path = "s2p ''doc.pdf''" and pages = demo_pages
        and ocr = demo_ocr and lang_arg = None
        and rs = "[(s2p ''Native text'', 0.95), (s2p ''Hello World'', 0.85)]",
        THEN conjunct2, THEN conjunct1] q
    by (rule mp)
  then have second: "extract_text_from_pdf demo_imaging demo_ocr (s2p ''doc.pdf'') None
       = Inr (s2p ''Native text'' @ [NL, NL] @ s2p ''Hello World'', 0.9)"
    by simp
  show ?thesis using first second by (intro conjI)
qed

subsection \<open>Deskewing\<close>

lemma collect_angles_small:
  "\<forall>c\<in>set contours. \<exists>a. contourArea L c = Inr a \<and> a < 100 \<Longrightarrow>
   collect_angles L contours angles = Inr angles"
  by (induction contours) (auto simp: bind_exn_def)

text \<open>
  Once the array and the grey image are there, \<^verbatim>\<open>deskew\<close> does not raise: when the
  detection of the angle or the rotation raises at any step (thresholding, contours,
  the loop over the contours, the rotation itself), the result is the argument itself;
  otherwise it is the rotated image. When no contour has area 100 or more, the angle
  is 0.
\<close>

lemma deskew_guarded_steps:
  assumes "to_array L img = Inr arr" and "to_gray L arr = Inr gray"
  shows "(detect_skew_angle L gray = Inl e \<longrightarrow> deskew L img = Inr img)
       \<and> (detect_skew_angle L gray = Inr angle \<and> rotate_image L arr angle = Inl e \<longrightarrow>
            deskew L img = Inr img)
       \<and> (deskew L img = Inr img
           \<or> (\<exists>angle rotated. detect_skew_angle L gray = Inr angle
                \<and> rotate_image L arr angle = Inr rotated
                \<and> deskew L img = Inr (Pil rotated)))
       \<and> (threshold_otsu L gray True = Inl e \<longrightarrow> deskew L img = Inr img)
       \<and> (threshold_otsu L gray True = Inr binary \<and> findContours L binary = Inl e \<longrightarrow>
            deskew L img = Inr img)
       \<and> (threshold_otsu L gray True = Inr binary \<and> findContours L binary = Inr contours
            \<and> collect_angles L contours [] = Inl e \<longrightarrow> deskew L img = Inr img)
       \<and> (threshold_otsu L gray True = Inr binary \<and> findContours L binary = Inr contours
            \<and> (\<forall>c\<in>set contours. \<exists>a. contourArea L c = Inr a \<and> a < 100) \<longrightarrow>
            detect_skew_angle L gray = Inr 0)"
proof -
  have d: "deskew L img =
             (case bind_exn (detect_skew_angle L gray) (rotate_image L arr) of
                Inr rotated \<Rightarrow> Inr (Pil rotated) | Inl e \<Rightarrow> Inr img)"
    using assms by (simp add: deskew_def bind_exn_def)
  have 1: "detect_skew_angle L gray = Inl e \<longrightarrow> deskew L img = Inr img"
    by (simp add: d bind_exn_def)
  have 2: "detect_skew_angle L gray = Inr angle \<and> rotate_image L arr angle = Inl e \<longrightarrow>
            deskew L img = Inr img"
    by (simp add: d bind_exn_def)
  have 3: "deskew L img = Inr img
           \<or> (\<exists>angle rotated. detect_skew_angle L gray = Inr angle
                \<and> rotate_image L arr angle = Inr rotated
                \<and> deskew L img = Inr (Pil rotated))"
    by (auto simp: d bind_exn_def split: sum.splits)
  have 4: "threshold_otsu L gray True = Inl e \<longrightarrow> deskew L img = Inr img"
    by (simp add: d detect_skew_angle_def bind_exn_def)
  have 5: "threshold_otsu L gray True = Inr binary \<and> findContours L binary = Inl e \<longrightarrow>
            deskew L img = Inr img"
    by (simp add: d detect_skew_angle_def bind_exn_def)
  have 6: "threshold_otsu L gray True = Inr binary \<and> findContours L binary = Inr contours
            \<and> collect_angles L contours [] = Inl e \<longrightarrow> deskew L img = Inr img"
    by (simp add: d detect_skew_angle_def bind_exn_def)
  have 7: "threshold_otsu L gray True = Inr binary \<and> findContours L binary = Inr contours
            \<and> (\<forall>c\<in>set contours. \<exists>a. contourArea L c = Inr a \<and> a < 100) \<longrightarrow>
            detect_skew_angle L gray = Inr 0"
    using collect_angles_small [of contours L "[]"]
    by (simp add: detect_skew_angle_def bind_exn_def)
  show ?thesis using 1 2 3 4 5 6 7 by blast
qed



subsection \<open>Orchestration\<close>

text \<open>
  Claim C6. When the extension of the path, in lower case, is neither \<^verbatim>\<open>.pdf\<close> nor one
  of the image extensions, \<^verbatim>\<open>extract_text\<close> returns the text "Unsupported file type"
  with confidence 0 and has called no stage: no handler, not the corrector, not
  the normalizer. A path ending in \<^verbatim>\<open>.docx\<close> is such a path.
\<close>

theorem unsupported_file_type:
  assumes "str_lower U (snd (splitext file_path)) \<noteq> s2p ''.pdf''"
    and "str_lower U (snd (splitext file_path)) \<notin> set image_extensions"
  shows "extract_text U (TextExtractionService_init L ocr ml pipeline) file_path source_lang enhance
         = (Inr (s2p ''Unsupported file type'', 0), [])"
  using assms
  by (simp add: extract_text_def determine_file_type_def TextExtractionService_init_def Let_def)

lemma splitext_docx: "splitext (s2p ''report.docx'') = (s2p ''report'', s2p ''.docx'')"
  by (simp add: splitext_def rfind_def s2p_def Let_def)

theorem unsupported_file_type_witness:
  "extract_text ascii_db
     (TextExtractionService_init demo_imaging demo_ocr
        (Some \<lparr>initialized = True, ml_corrections = placeholder_ml_corrections\<rparr>) None)
     (s2p ''report.docx'') (s2p ''auto'') True
   = (Inr (s2p ''Unsupported file type'', 0), [])"
proof -
  have e: "str_lower ascii_db (snd (splitext (s2p ''report.docx''))) = s2p ''.docx''"
    by (simp add: splitext_docx ascii_db_def) (simp add: s2p_def ascii_to_lower_def ascii_upper_def)
  have a: "str_lower ascii_db (snd (splitext (s2p ''report.docx''))) \<noteq> s2p ''.pdf''"
    unfolding e by (simp add: s2p_def)
  have b: "str_lower ascii_db (snd (splitext (s2p ''report.docx''))) \<notin> set image_extensions"
    unfolding e by (simp add: s2p_def image_extensions_def)
  show ?thesis by (rule unsupported_file_type [OF a b])
qed

subsection \<open>Regular expressions and the paragraph fix-up\<close>

declare first_down.simps [simp del]

lemma first_down_SomeD:
  "first_down m f k = Some r \<Longrightarrow> \<exists>j. m \<le> j \<and> j \<le> k \<and> f j = Some r"
proof (induction k)
  case 0
  then show ?case by (auto simp: first_down.simps split: if_splits)
next
  case (Suc k)
  show ?case
  proof (cases "f (Suc k)")
    case None
    with Suc.prems have "first_down m f k = Some r"
      by (simp add: first_down.simps split: if_splits)
    from Suc.IH [OF this] show ?thesis by (meson le_Suc_eq)
  next
    case (Some a)
    with Suc.prems have "a = r" "m \<le> Suc k" by (auto simp: first_down.simps split: if_splits)
    with Some show ?thesis by blast
  qed
qed

lemma first_down_const:
  "first_down m (\<lambda>k. Some (g k)) K = (if m \<le> K then Some (g K) else None)"
  by (cases K) (auto simp: first_down.simps)

lemma first_down_None:
  "(\<forall>i. m \<le> i \<and> i \<le> K \<longrightarrow> f i = None) \<Longrightarrow> first_down m f K = None"
  by (induction K) (auto simp: first_down.simps)

lemma first_down_last:
  "m \<le> j \<Longrightarrow> j \<le> K \<Longrightarrow> f j = Some r \<Longrightarrow> (\<forall>i. j < i \<and> i \<le> K \<longrightarrow> f i = None) \<Longrightarrow>
   first_down m f K = Some r"
proof (induction K)
  case 0
  then show ?case by (simp add: first_down.simps)
next
  case (Suc K)
  show ?case
  proof (cases "j = Suc K")
    case True
    then show ?thesis using Suc.prems by (simp add: first_down.simps)
  next
    case False
    then have "j \<le> K" using Suc.prems by simp
    moreover have "f (Suc K) = None" using Suc.prems False by simp
    ultimately show ?thesis using Suc by (simp add: first_down.simps)
  qed
qed

text \<open>The first pattern of the fix-up, \<^verbatim>\<open>(?<!\n)\n(?!\n)\<close>.\<close>

lemma single_newline_match:
  "match_here single_newline_pattern pre rest =
     (if \<not> (case pre of [] \<Rightarrow> False | p # _ \<Rightarrow> p = NL)
         \<and> (case rest of [] \<Rightarrow> False
             | c # cs \<Rightarrow> c = NL \<and> (case cs of [] \<Rightarrow> True | d # _ \<Rightarrow> d \<noteq> NL))
      then Some (Suc 0, []) else None)"
  by (simp add: single_newline_pattern_def is_newline_def split: list.splits)

lemma single_newlines_pass:
  "re_sub_from single_newline_pattern [Lit [SP]] pre s
   = single_newlines (case pre of [] \<Rightarrow> False | p # _ \<Rightarrow> p = NL) s"
proof (induction s arbitrary: pre)
  case Nil
  show ?case by (simp add: single_newline_match)
next
  case (Cons c cs)
  show ?case using Cons.IH [of "c # pre"]
    by (auto simp: single_newline_match)
qed

text \<open>The second pattern, \<^verbatim>\<open>\n{3,}\<close>.\<close>

lemma newline_run_match:
  "match_here newline_run_pattern pre rest =
     (if 3 \<le> length (takeWhile is_newline rest)
      then Some (length (takeWhile is_newline rest), []) else None)"
  by (simp add: newline_run_pattern_def first_down_const)

lemma collapse_newlines_pass:
  "re_sub_from newline_run_pattern [Lit [NL, NL]] pre s = collapse_newlines s"
proof (induction s arbitrary: pre rule: collapse_newlines.induct)
  case 1
  show ?case by (simp add: newline_run_match)
next
  case (2 c cs)
  show ?case
  proof (cases "c = NL")
    case False
    then show ?thesis using "2.IH"(2) [of "c # pre"]
      by (simp add: newline_run_match is_newline_def)
  next
    case True
    let ?run = "takeWhile is_newline cs"
    have dd: "drop (length ?run) cs = dropWhile is_newline cs"
      by (simp add: dropWhile_eq_drop)
    show ?thesis
    proof (cases "2 \<le> length ?run")
      case long: True
      then show ?thesis using True "2.IH"(1) [OF True] dd
        by (simp add: newline_run_match is_newline_def)
    next
      case short: False
      show ?thesis
      proof (cases cs)
        case Nil
        then show ?thesis using True "2.IH"(1) [OF True, of "c # pre"]
          by (simp add: newline_run_match is_newline_def)
      next
        case (Cons d ds)
        show ?thesis
        proof (cases "d = NL")
          case dn: False
          then show ?thesis using True Cons "2.IH"(1) [OF True, of "c # pre"]
            by (simp add: newline_run_match is_newline_def)
        next
          case dn: True
          then have e: "takeWhile is_newline ds = []"
            using short Cons by (cases "takeWhile is_newline ds") (auto simp: is_newline_def)
          then have dw: "dropWhile is_newline ds = ds"
            using takeWhile_dropWhile_id [of is_newline ds] by simp
          show ?thesis using True Cons dn e dw "2.IH"(1) [OF True, of "d # c # pre"]
            by (simp add: newline_run_match is_newline_def)
        qed
      qed
    qed
  qed
qed


text \<open>The third pattern, with its look-behind, greedy class and look-ahead.\<close>

lemma bullet_match:
  "match_here bullet_pattern pre rest =
     (if (case pre of [] \<Rightarrow> False | p # _ \<Rightarrow> p = NL)
      then first_down 0 (\<lambda>k. if starts_bullet (drop k rest) then Some (k, []) else None)
             (length (takeWhile bullet_lead rest))
      else None)"
proof -
  have "(\<lambda>k. case match_here [Ahead True is_bullet] (rev (take k rest) @ pre) (drop k rest) of
               None \<Rightarrow> None | Some (n, gs) \<Rightarrow> Some (k + n, gs))
        = (\<lambda>k. if starts_bullet (drop k rest) then Some (k, []) else None)"
    by (rule ext) (simp add: starts_bullet_def is_bullet_def split: list.splits)
  then show ?thesis
    by (simp add: bullet_pattern_def is_newline_def split: list.splits)
qed

lemma starts_bullet_in_run:
  assumes "i \<le> length (takeWhile bullet_lead rest)"
  shows "starts_bullet (drop i rest) \<longleftrightarrow>
         i < length (takeWhile bullet_lead rest) \<and> takeWhile bullet_lead rest ! i = BULLET"
proof (cases "i < length (takeWhile bullet_lead rest)")
  case True
  then have il: "i < length rest" using length_takeWhile_le [of bullet_lead rest] by simp
  have "drop i rest = rest ! i # drop (Suc i) rest" using il by (simp add: Cons_nth_drop_Suc)
  moreover have "takeWhile bullet_lead rest ! i = rest ! i" using True by (rule takeWhile_nth)
  ultimately show ?thesis using True by (simp add: starts_bullet_def)
next
  case False
  then have "i = length (takeWhile bullet_lead rest)" using assms by simp
  then have d: "drop i rest = dropWhile bullet_lead rest" by (simp add: dropWhile_eq_drop)
  have "\<not> starts_bullet (dropWhile bullet_lead rest)"
  proof (cases "dropWhile bullet_lead rest")
    case Nil
    show ?thesis unfolding starts_bullet_def Nil by simp
  next
    case (Cons x xs)
    then have "\<not> bullet_lead x" by (simp add: dropWhile_eq_Cons_conv)
    then have "x \<noteq> BULLET" by (auto simp: bullet_lead_def)
    then show ?thesis unfolding starts_bullet_def Cons by simp
  qed
  then show ?thesis using False d by simp
qed

lemma no_bullet_no_match:
  assumes "BULLET \<notin> set (takeWhile bullet_lead rest)"
  shows "match_here bullet_pattern pre rest = None"
proof -
  have "first_down 0 (\<lambda>k. if starts_bullet (drop k rest) then Some (k, [] :: pystr list) else None)
          (length (takeWhile bullet_lead rest)) = None"
  proof (rule first_down_None, intro allI impI)
    fix i assume "0 \<le> i \<and> i \<le> length (takeWhile bullet_lead rest)"
    then have i: "i \<le> length (takeWhile bullet_lead rest)" by simp
    have "\<not> (i < length (takeWhile bullet_lead rest) \<and> takeWhile bullet_lead rest ! i = BULLET)"
      using assms nth_mem by metis
    then have "\<not> starts_bullet (drop i rest)"
      using starts_bullet_in_run [OF i] by simp
    then show "(if starts_bullet (drop i rest) then Some (i, [] :: pystr list) else None) = None"
      by simp
  qed
  then show ?thesis by (simp add: bullet_match)
qed

lemma last_bullet_match:
  assumes run: "takeWhile bullet_lead rest = a @ BULLET # b" and nb: "BULLET \<notin> set b"
  shows "match_here bullet_pattern (NL # pre) rest = Some (length a, [])"
proof -
  let ?f = "\<lambda>k. if starts_bullet (drop k rest) then Some (k, [] :: pystr list) else None"
  let ?K = "length (takeWhile bullet_lead rest)"
  have K: "?K = length a + Suc (length b)" using run by simp
  have j: "?f (length a) = Some (length a, [])"
    using starts_bullet_in_run [of "length a" rest] run by (simp add: nth_append)
  have later: "\<forall>i. length a < i \<and> i \<le> ?K \<longrightarrow> ?f i = None"
  proof (intro allI impI)
    fix i assume i: "length a < i \<and> i \<le> ?K"
    have "\<not> starts_bullet (drop i rest)"
    proof (cases "i < ?K")
      case True
      then have "i - Suc (length a) < length b" using i K by simp
      then have "b ! (i - Suc (length a)) \<in> set b" by (rule nth_mem)
      moreover have "takeWhile bullet_lead rest ! i = b ! (i - Suc (length a))"
        using i run by (simp add: nth_append nth_Cons')
      ultimately show ?thesis using starts_bullet_in_run [of i rest] i nb by auto
    next
      case False
      then show ?thesis using starts_bullet_in_run [of i rest] i by simp
    qed
    then show "?f i = None" by simp
  qed
  have "first_down 0 ?f ?K = Some (length a, [])"
    by (rule first_down_last [where j = "length a"]) (use K j later in simp_all)
  then show ?thesis by (simp add: bullet_match)
qed

lemma run_split:
  assumes "BULLET \<in> set (takeWhile P s)"
  obtains a b where "takeWhile P s = a @ BULLET # b" and "BULLET \<notin> set b"
    and "s = a @ BULLET # b @ dropWhile P s"
    and "takeWhile P (b @ dropWhile P s) = b"
    and "dropWhile P (b @ dropWhile P s) = dropWhile P s"
    and "takeWhile P (dropWhile P s) = []"
proof -
  from assms obtain a b where run: "takeWhile P s = a @ BULLET # b" and nb: "BULLET \<notin> set b"
    using split_list_last [of BULLET "takeWhile P s"] by blast
  have s: "s = a @ BULLET # b @ dropWhile P s"
    using takeWhile_dropWhile_id [of P s] run by simp
  have "\<forall>x\<in>set (takeWhile P s). P x" using set_takeWhileD by fast
  then have allb: "\<forall>x\<in>set b. P x" unfolding run by simp
  have nr: "takeWhile P (dropWhile P s) = []"
  proof (cases "dropWhile P s")
    case Nil
    show ?thesis unfolding Nil by simp
  next
    case (Cons x xs)
    then have "\<not> P x" by (simp add: dropWhile_eq_Cons_conv)
    then show ?thesis unfolding Cons by simp
  qed
  have tb: "takeWhile P (b @ dropWhile P s) = b"
    using allb nr by (simp add: takeWhile_append2)
  have db: "dropWhile P (b @ dropWhile P s) = dropWhile P s"
    using allb by (simp add: dropWhile_append2)
  show thesis using that run nb s tb db nr by blast
qed

lemma copy_run:
  "BULLET \<notin> set (takeWhile bullet_lead s) \<Longrightarrow>
   re_sub_from bullet_pattern [] pre s
   = takeWhile bullet_lead s
     @ re_sub_from bullet_pattern [] (rev (takeWhile bullet_lead s) @ pre) (dropWhile bullet_lead s)"
proof (induction s arbitrary: pre)
  case Nil
  show ?case by simp
next
  case (Cons c cs)
  show ?case
  proof (cases "bullet_lead c")
    case False
    then show ?thesis by simp
  next
    case True
    have m: "match_here bullet_pattern pre (c # cs) = None"
      using Cons.prems by (rule no_bullet_no_match)
    have "BULLET \<notin> set (takeWhile bullet_lead cs)" using Cons.prems True by simp
    from Cons.IH [OF this, of "c # pre"] show ?thesis using True m by simp
  qed
qed

lemma keep_from_last_bullet:
  assumes "BULLET \<notin> set (takeWhile bullet_lead t)"
  shows "re_sub_from bullet_pattern [] pre (BULLET # t)
         = BULLET # takeWhile bullet_lead t
           @ re_sub_from bullet_pattern [] (rev (takeWhile bullet_lead t) @ BULLET # pre)
               (dropWhile bullet_lead t)"
proof -
  have lead: "bullet_lead BULLET" by (simp add: bullet_lead_def)
  have "match_here bullet_pattern pre (BULLET # t) = None
        \<or> match_here bullet_pattern pre (BULLET # t) = Some (0, [])"
  proof (cases "case pre of [] \<Rightarrow> False | p # _ \<Rightarrow> p = NL")
    case False
    then show ?thesis by (simp add: bullet_match)
  next
    case True
    then obtain pre' where p: "pre = NL # pre'" by (cases pre) auto
    have "takeWhile bullet_lead (BULLET # t) = [] @ BULLET # takeWhile bullet_lead t"
      using lead by simp
    from last_bullet_match [OF this assms, of pre'] show ?thesis using p by simp
  qed
  then have "re_sub_from bullet_pattern [] pre (BULLET # t)
             = BULLET # re_sub_from bullet_pattern [] (BULLET # pre) t"
    by auto
  then show ?thesis using copy_run [OF assms, of "BULLET # pre"] by simp
qed

lemma strip_bullet_lead_flag:
  "takeWhile bullet_lead s = [] \<Longrightarrow> strip_bullet_lead flag s = strip_bullet_lead False s"
  by (cases s) auto

lemma strip_at_run:
  "BULLET \<in> set (takeWhile bullet_lead s) \<Longrightarrow>
   strip_bullet_lead True s
   = BULLET # rev (takeWhile (\<lambda>x. x \<noteq> BULLET) (rev (takeWhile bullet_lead s)))
     @ strip_bullet_lead False (dropWhile bullet_lead s)"
  by (cases s) auto

lemma strip_bullet_lead_pass:
  "re_sub_from bullet_pattern [] pre s
   = strip_bullet_lead (case pre of [] \<Rightarrow> False | p # _ \<Rightarrow> p = NL) s"
proof (induction "length s" arbitrary: s pre rule: less_induct)
  case less
  let ?flag = "case pre of [] \<Rightarrow> False | p # _ \<Rightarrow> p = NL"
  show ?case
  proof (cases s)
    case Nil
    have "match_here bullet_pattern pre [] = None" by (rule no_bullet_no_match) simp
    then show ?thesis using Nil by simp
  next
    case (Cons c cs)
    let ?run = "takeWhile bullet_lead (c # cs)"
    let ?rest = "dropWhile bullet_lead (c # cs)"
    show ?thesis
    proof (cases "?flag \<and> BULLET \<in> set ?run")
      case False
      have m: "match_here bullet_pattern pre (c # cs) = None"
      proof (cases ?flag)
        case True
        then show ?thesis using False no_bullet_no_match by blast
      next
        case False
        then show ?thesis by (simp add: bullet_match)
      qed
      have "re_sub_from bullet_pattern [] (c # pre) cs = strip_bullet_lead (c = NL) cs"
        using less [of cs "c # pre"] Cons by simp
      then show ?thesis using m False Cons by auto
    next
      case True
      then obtain pre' where p: "pre = NL # pre'" by (cases pre) auto
      define rest where "rest = dropWhile bullet_lead s"
      from True have inrun: "BULLET \<in> set (takeWhile bullet_lead s)" using Cons by simp
      then obtain a b where run: "takeWhile bullet_lead s = a @ BULLET # b"
        and nb: "BULLET \<notin> set b"
        and s: "s = a @ BULLET # b @ rest"
        and tb: "takeWhile bullet_lead (b @ rest) = b"
        and db: "dropWhile bullet_lead (b @ rest) = rest"
        and nr: "takeWhile bullet_lead rest = []"
        unfolding rest_def by (rule run_split)
      have m: "match_here bullet_pattern pre s = Some (length a, [])"
        using last_bullet_match [OF run nb, of pre'] p by simp
      have "length s = length a + Suc (length b + length rest)"
        using arg_cong [OF s, of length] by simp
      then have shorter: "length rest < length s" by simp
      have tail: "re_sub_from bullet_pattern [] q rest = strip_bullet_lead False rest" for q
        using less [OF shorter, of q] strip_bullet_lead_flag [OF nr] by simp
      have jump: "re_sub_from bullet_pattern [] pre s
                  = re_sub_from bullet_pattern [] (rev a @ pre) (BULLET # b @ rest)"
      proof (cases "a = []")
        case True
        then have "BULLET # b @ rest = s" using s by simp
        then show ?thesis using True by simp
      next
        case False
        then have n0: "length a \<noteq> 0" by simp
        have m': "match_here bullet_pattern pre (c # cs) = Some (length a, [])"
          using m unfolding Cons .
        have "re_sub_from bullet_pattern [] pre (c # cs)
              = re_sub_from bullet_pattern [] (rev (take (length a) (c # cs)) @ pre)
                  (drop (length a) (c # cs))"
          using m' n0 by simp
        then have "re_sub_from bullet_pattern [] pre s
              = re_sub_from bullet_pattern [] (rev (take (length a) s) @ pre) (drop (length a) s)"
          unfolding Cons .
        moreover have "take (length a) s = a" by (subst s) simp
        moreover have "drop (length a) s = BULLET # b @ rest" by (subst s) simp
        ultimately show ?thesis by simp
      qed
      have keep: "re_sub_from bullet_pattern [] (rev a @ pre) (BULLET # b @ rest)
            = BULLET # b @ strip_bullet_lead False rest"
        using keep_from_last_bullet [of "b @ rest" "rev a @ pre"] nb tb db tail by simp
      have "takeWhile (\<lambda>x. x \<noteq> BULLET) (rev b @ BULLET # rev a)
            = rev b @ takeWhile (\<lambda>x. x \<noteq> BULLET) (BULLET # rev a)"
        by (rule takeWhile_append2) (use nb in auto)
      then have kept: "rev (takeWhile (\<lambda>x. x \<noteq> BULLET) (rev (takeWhile bullet_lead s))) = b"
        unfolding run by simp
      have "strip_bullet_lead True s = BULLET # b @ strip_bullet_lead False rest"
        using strip_at_run [OF inrun] kept rest_def by simp
      moreover have "(case pre of [] \<Rightarrow> False | p # _ \<Rightarrow> p = NL) = True" using p by simp
      ultimately show ?thesis using jump keep by simp
    qed
  qed
qed

lemma fix_paragraphs_direct:
  "fix_paragraphs s = strip_bullet_lead False (collapse_newlines (single_newlines False s))"
  by (simp add: fix_paragraphs_def re_sub_def single_newlines_pass collapse_newlines_pass
      strip_bullet_lead_pass)


subsection \<open>The first pass of the normalizer\<close>

lemma re_sub_from_identity:
  "(\<forall>pre rest n gs. match_here p pre rest = Some (n, gs) \<longrightarrow> expand tpl gs = take n rest) \<Longrightarrow>
   re_sub_from p tpl pre s = s"
proof (induction p tpl pre s rule: re_sub_from.induct)
  case (1 p tpl pre)
  show ?case
  proof (cases "match_here p pre []")
    case None
    then show ?thesis by simp
  next
    case (Some a)
    obtain n gs where a: "a = (n, gs)" by (cases a)
    have "expand tpl gs = take n []" using 1 Some a by blast
    then show ?thesis using Some a by simp
  qed
next
  case (2 p tpl pre c cs)
  note same = "2.prems"
  show ?case
  proof (cases "match_here p pre (c # cs)")
    case None
    then show ?thesis using "2.IH"(1) [OF None same] by simp
  next
    case (Some a)
    obtain n gs where a: "a = (n, gs)" by (cases a)
    have e: "expand tpl gs = take n (c # cs)" using same Some a by blast
    show ?thesis
    proof (cases "n = 0")
      case True
      have "re_sub_from p tpl (c # pre) cs = cs"
        using "2.IH"(2) [OF Some a [symmetric] True same] .
      then show ?thesis using Some a e True by simp
    next
      case False
      have "re_sub_from p tpl (rev (take n (c # cs)) @ pre) (drop n (c # cs)) = drop n (c # cs)"
        using "2.IH"(3) [OF Some a [symmetric] False same] .
      then show ?thesis using Some a e False by simp
    qed
  qed
qed

lemma decimal_match:
  assumes "match_here (decimal_pattern U) pre rest = Some (n, gs)"
  shows "expand decimal_replacement gs = take n rest"
proof -
  let ?d = "uni_isdecimal U"
  let ?tail = "[Plain (One (\<lambda>c. c = 46)), Cap (AtLeast 1 ?d)]"
  let ?inner = "\<lambda>k. case match_here ?tail (rev (take k rest) @ pre) (drop k rest) of
                     None \<Rightarrow> None | Some (n, gs) \<Rightarrow> Some (k + n, take k rest # gs)"
  from assms have "first_down 1 ?inner (length (takeWhile ?d rest)) = Some (n, gs)"
    by (simp only: decimal_pattern_def match_here.simps)
  from first_down_SomeD [OF this]
  obtain j where j: "j \<le> length (takeWhile ?d rest)" and ij: "?inner j = Some (n, gs)"
    by blast
  have jl: "j \<le> length rest" using j length_takeWhile_le [of ?d rest] by simp
  from ij obtain n1 gs1 where
    m1: "match_here ?tail (rev (take j rest) @ pre) (drop j rest) = Some (n1, gs1)"
    and n: "n = j + n1" and gs: "gs = take j rest # gs1"
    by (cases "match_here ?tail (rev (take j rest) @ pre) (drop j rest)") auto
  from m1 obtain c cs where dr: "drop j rest = c # cs"
    by (cases "drop j rest") (simp_all del: drop_eq_Nil)
  from m1 have c: "c = 46" and n1: "n1 = Suc (length (takeWhile ?d cs))"
    and gs1: "gs1 = [takeWhile ?d cs]"
    unfolding dr
    by (simp_all add: first_down_const takeWhile_eq_take [symmetric] split: if_splits)
  have "take n rest = take j rest @ take n1 (drop j rest)"
    using n by (simp add: take_add)
  also have "\<dots> = take j rest @ c # takeWhile ?d cs"
    unfolding dr n1 by (simp add: takeWhile_eq_take [symmetric])
  finally show ?thesis using gs gs1 c by (simp add: decimal_replacement_def)
qed

text \<open>
  Claim C10. The first pattern pass of the normalizer, \<^verbatim>\<open>(\d+)\.(\d+)\<close> replaced by
  \<^verbatim>\<open>\1.\2\<close>, returns every text unchanged, whatever the decimal digits of the
  Unicode database are; so \<^verbatim>\<open>_fix_patterns\<close> is the composition of the remaining
  four passes.
\<close>

theorem decimal_pass_identity:
  "re_sub (decimal_pattern U) decimal_replacement s = s
   \<and> fix_patterns U s
       = foldl (\<lambda>processed (pattern, replacement). re_sub pattern replacement processed)
           s (tl (patterns U))"
proof -
  have "\<forall>pre rest n gs. match_here (decimal_pattern U) pre rest = Some (n, gs) \<longrightarrow>
          expand decimal_replacement gs = take n rest"
    using decimal_match by blast
  then have a: "re_sub (decimal_pattern U) decimal_replacement x = x" for x
    unfolding re_sub_def by (rule re_sub_from_identity)
  show ?thesis by (simp add: a fix_patterns_def patterns_def)
qed

theorem decimal_pass_identity_witness:
  "re_sub (decimal_pattern ascii_db) decimal_replacement (s2p ''pi is 3.14, v1.2.3'')
   = s2p ''pi is 3.14, v1.2.3''"
  using decimal_pass_identity [of ascii_db "s2p ''pi is 3.14, v1.2.3''"] by (rule conjunct1)

subsection \<open>The paragraph fix-up in words\<close>

text \<open>What the first two functions do, position by position and run by run.\<close>

lemma single_newlines_length: "length (single_newlines f s) = length s"
  by (induction s arbitrary: f) simp_all

lemma single_newlines_nth:
  "i < length s \<Longrightarrow>
   single_newlines f s ! i
   = (if s ! i = NL \<and> \<not> (if i = 0 then f else s ! (i - 1) = NL)
         \<and> (Suc i < length s \<longrightarrow> s ! Suc i \<noteq> NL)
      then SP else s ! i)"
proof (induction s arbitrary: f i)
  case Nil
  then show ?case by simp
next
  case (Cons c cs)
  show ?case
  proof (cases i)
    case 0
    then show ?thesis by (cases cs) auto
  next
    case (Suc k)
    then have "k < length cs" using Cons.prems by simp
    from Cons.IH [OF this, of "c = NL"] show ?thesis using Suc by (cases k) auto
  qed
qed

lemma collapse_newlines_run:
  assumes "rest = [] \<or> hd rest \<noteq> NL"
  shows "collapse_newlines (replicate n NL @ rest) = replicate (min n 2) NL @ collapse_newlines rest"
proof (cases n)
  case 0
  then show ?thesis by simp
next
  case (Suc k)
  have r: "takeWhile is_newline rest = []" "dropWhile is_newline rest = rest"
    using assms by (cases rest; simp add: is_newline_def)+
  have "takeWhile is_newline (replicate k NL @ rest) = replicate k NL @ takeWhile is_newline rest"
    by (rule takeWhile_append2) (simp add: is_newline_def)
  then have t: "takeWhile is_newline (replicate k NL @ rest) = replicate k NL"
    using r by simp
  have "dropWhile is_newline (replicate k NL @ rest) = dropWhile is_newline rest"
    by (rule dropWhile_append2) (simp add: is_newline_def)
  then have d: "dropWhile is_newline (replicate k NL @ rest) = rest"
    using r by simp
  have "replicate (min (Suc k) 2) NL = (if 2 \<le> k then [NL, NL] else NL # replicate k NL)"
    by (cases k; cases "k - 1") (auto simp: min_def numeral_2_eq_2)
  then show ?thesis using Suc t d by simp
qed


text \<open>
  Claim C9, amended. \<^verbatim>\<open>_fix_paragraphs\<close> is the composition of three rewrites: a newline
  with no newline next to it becomes a space (position by position); then a maximal
  run of three or more newlines becomes two newlines and shorter runs stay; then,
  behind a newline, when the run of white space, bullets and hyphens that starts
  there holds a bullet, the part of the run before its last bullet is removed.
  (The claim as stated has only white space removed in front of a bullet.)
\<close>

theorem fix_paragraphs_rewrites:
  "fix_paragraphs s = strip_bullet_lead False (collapse_newlines (single_newlines False s))
   \<and> length (single_newlines False s) = length s
   \<and> (\<forall>i<length s. single_newlines False s ! i
         = (if s ! i = NL \<and> \<not> (if i = 0 then False else s ! (i - 1) = NL)
               \<and> (Suc i < length s \<longrightarrow> s ! Suc i \<noteq> NL)
            then SP else s ! i))
   \<and> (\<forall>n rest. rest = [] \<or> hd rest \<noteq> NL \<longrightarrow>
         collapse_newlines (replicate n NL @ rest)
         = replicate (min n 2) NL @ collapse_newlines rest)
   \<and> (\<forall>c rest. c \<noteq> NL \<longrightarrow> collapse_newlines (c # rest) = c # collapse_newlines rest)"
  using fix_paragraphs_direct [of s] single_newlines_length [of False s]
    single_newlines_nth [of _ s False] collapse_newlines_run
  by simp

theorem fix_paragraphs_rewrites_witness:
  "fix_paragraphs [97, NL, 98, NL, NL, NL, NL, SP, SP, BULLET, SP, 99]
   = [97, SP, 98, NL, BULLET, SP, 99]"
  using fix_paragraphs_rewrites [of "[97, NL, 98, NL, NL, NL, NL, SP, SP, BULLET, SP, 99]",
      THEN conjunct1]
  by (simp add: is_newline_def bullet_lead_def isspace_def)

text \<open>
  The claim C9 as stated fails: in the text \<open>x\<close>, two newlines, a hyphen, a bullet, a
  space, \<open>y\<close>, the program removes the second newline and the hyphen, while the three
  rewrites of the claim leave the text as it is.
\<close>

theorem fix_paragraphs_counterexample:
  "fix_paragraphs [120, NL, NL, HYPHEN, BULLET, SP, 121] = [120, NL, BULLET, SP, 121]
   \<and> spec_fix_paragraphs [120, NL, NL, HYPHEN, BULLET, SP, 121]
       = [120, NL, NL, HYPHEN, BULLET, SP, 121]
   \<and> fix_paragraphs [120, NL, NL, HYPHEN, BULLET, SP, 121]
       \<noteq> spec_fix_paragraphs [120, NL, NL, HYPHEN, BULLET, SP, 121]"
  unfolding fix_paragraphs_direct spec_fix_paragraphs_def
  by (simp add: is_newline_def bullet_lead_def isspace_def)

end
